theory Spec2Isabelle
  imports Main
begin

section \<open>Python strings\<close>

text \<open>
  File names, paths, frame ids and the text of the entry boxes are modelled as
  \<open>string\<close>s whose characters are the code points below 256; the predicates below are
  those of CPython on that range. The query handed to the search and the strings of a
  metadata document are lists of arbitrary code points (see the section on text beyond
  Latin-1).
\<close>

definition py_isspace :: "char \<Rightarrow> bool" where
  \<comment> \<open>\<open>str.isspace\<close> on one character: TAB, LF, VT, FF, CR, FS, GS, RS, US, SPACE,
      NEL (0x85) and NBSP (0xA0).\<close>
  "py_isspace c = ((of_char c :: nat) \<in> {9, 10, 11, 12, 13, 28, 29, 30, 31, 32, 133, 160})"

definition punctuation :: string where
  \<comment> \<open>\<open>string.punctuation\<close>: the code points 33-47, 58-64, 91-96 and 123-126.\<close>
  "punctuation = map char_of ([33..<48] @ [58..<65] @ [91..<97] @ [123..<127] :: nat list)"

definition py_strip :: "string \<Rightarrow> string" where
  \<comment> \<open>\<open>s.strip()\<close>\<close>
  "py_strip s = rev (dropWhile py_isspace (rev (dropWhile py_isspace s)))"

function py_split :: "string \<Rightarrow> string list" where
  \<comment> \<open>\<open>s.split()\<close>: skip a run of whitespace, take the word up to the next whitespace.\<close>
  "py_split s =
     (case dropWhile py_isspace s of
        [] \<Rightarrow> []
      | c # cs \<Rightarrow> (c # takeWhile (\<lambda>x. \<not> py_isspace x) cs)
                  # py_split (dropWhile (\<lambda>x. \<not> py_isspace x) cs))"
  by pat_completeness auto
termination
proof (relation "measure length")
  show "wf (measure length)" by simp
next
  fix s :: string and c cs
  assume a: "dropWhile py_isspace s = c # cs"
  have "length (dropWhile (\<lambda>x. \<not> py_isspace x) cs) \<le> length cs"
    by (rule length_dropWhile_le)
  moreover have "length (c # cs) \<le> length s"
    using length_dropWhile_le [of py_isspace s] a by simp
  ultimately show "(dropWhile (\<lambda>x. \<not> py_isspace x) cs, s) \<in> measure length"
    by simp
qed

declare py_split.simps [simp del]

fun py_join :: "'a list \<Rightarrow> 'a list list \<Rightarrow> 'a list" where
  \<comment> \<open>\<open>sep.join(words)\<close>\<close>
  "py_join sep [] = []"
| "py_join sep [w] = w"
| "py_join sep (w # ws) = w @ sep @ py_join sep ws"

definition py_lower_char :: "char \<Rightarrow> char" where
  \<comment> \<open>\<open>str.lower\<close> on one character: A-Z, and the Latin-1 capitals 0xC0-0xDE without
      the multiplication sign 0xD7, move up by 32.\<close>
  "py_lower_char c =
     (let n = (of_char c :: nat) in
      if (65 \<le> n \<and> n \<le> 90) \<or> (192 \<le> n \<and> n \<le> 222 \<and> n \<noteq> 215) then char_of (n + 32) else c)"

definition py_lower :: "string \<Rightarrow> string" where
  \<comment> \<open>\<open>s.lower()\<close>\<close>
  "py_lower s = map py_lower_char s"

definition startswith :: "'a list \<Rightarrow> 'a list \<Rightarrow> bool" where
  \<comment> \<open>\<open>s.startswith(pre)\<close>\<close>
  "startswith s pre = (take (length pre) s = pre)"

definition endswith :: "'a list \<Rightarrow> 'a list \<Rightarrow> bool" where
  \<comment> \<open>\<open>s.endswith(suf)\<close>\<close>
  "endswith s suf = (length suf \<le> length s \<and> drop (length s - length suf) s = suf)"

fun py_in :: "'a list \<Rightarrow> 'a list \<Rightarrow> bool" where
  \<comment> \<open>\<open>a in b\<close> on strings: \<open>a\<close> occurs in \<open>b\<close> as a contiguous run.\<close>
  "py_in a [] = (a = [])"
| "py_in a (c # cs) = (startswith (c # cs) a \<or> py_in a cs)"

fun rfind :: "string \<Rightarrow> char \<Rightarrow> int" where
  \<comment> \<open>\<open>p.rfind(c)\<close> for a one-character \<open>c\<close>: the highest index of \<open>c\<close>, or -1.\<close>
  "rfind [] c = - 1"
| "rfind (x # xs) c =
     (let r = rfind xs c in if 0 \<le> r then r + 1 else if x = c then 0 else - 1)"

function str_nat :: "nat \<Rightarrow> string" where
  \<comment> \<open>\<open>str(n)\<close> for \<open>n \<ge> 0\<close>: the decimal digits.\<close>
  "str_nat n =
     (if n < 10 then [char_of (48 + n)] else str_nat (n div 10) @ [char_of (48 + n mod 10)])"
  by pat_completeness auto
termination
  by (relation "measure id") auto

declare str_nat.simps [simp del]

definition str_int :: "int \<Rightarrow> string" where
  \<comment> \<open>\<open>str(i)\<close> for an \<open>int\<close>\<close>
  "str_int i = (if i < 0 then CHR ''-'' # str_nat (nat (- i)) else str_nat (nat i))"

definition zero_pad :: "nat \<Rightarrow> nat \<Rightarrow> string" where
  \<comment> \<open>the format \<open>{n:0wd}\<close> for \<open>n \<ge> 0\<close>\<close>
  "zero_pad w n = replicate (w - length (str_nat n)) CHR ''0'' @ str_nat n"

section \<open>Text beyond Latin-1\<close>

text \<open>
  The query and the strings of a metadata document are arbitrary Python \<open>str\<close> values:
  lists of code points. What \<open>str.lower\<close> and \<open>repr\<close> do with a code point from U+0100
  on is decided by the Unicode tables of the interpreter, which are no part of this
  program: they are a parameter. Below U+0100 both are written out.
\<close>

type_synonym unistr = "nat list"

definition unistr :: "string \<Rightarrow> unistr" where
  \<comment> \<open>a string of code points below 256, as a \<open>str\<close>\<close>
  "unistr s = map of_char s"

record unicode_tables =
  wide_lower :: "unistr \<Rightarrow> nat \<Rightarrow> unistr"
    \<comment> \<open>\<open>wide_lower s i\<close>: the lower-case mapping of the character at position \<open>i\<close> of
        \<open>s\<close>, a character from U+0100 on; it may be several characters, and that of the
        capital sigma depends on its neighbours in \<open>s\<close>\<close>
  wide_printable :: "nat \<Rightarrow> bool"
    \<comment> \<open>\<open>str.isprintable\<close> of a character from U+0100 on\<close>

definition lower_code :: "nat \<Rightarrow> nat" where
  \<comment> \<open>\<open>str.lower\<close> on one character below U+0100: A-Z, and the Latin-1 capitals
      0xC0-0xDE without the multiplication sign 0xD7, move up by 32.\<close>
  "lower_code n =
     (if (65 \<le> n \<and> n \<le> 90) \<or> (192 \<le> n \<and> n \<le> 222 \<and> n \<noteq> 215) then n + 32 else n)"

definition lower_at :: "unicode_tables \<Rightarrow> unistr \<Rightarrow> nat \<Rightarrow> unistr" where
  "lower_at ucd s i = (let c = s ! i in if c < 256 then [lower_code c] else wide_lower ucd s i)"

definition unistr_lower :: "unicode_tables \<Rightarrow> unistr \<Rightarrow> unistr" where
  \<comment> \<open>\<open>s.lower()\<close>: the mappings of the characters of \<open>s\<close>, one position after the other\<close>
  "unistr_lower ucd s = concat (map (lower_at ucd s) [0..<length s])"

definition hex_digit :: "nat \<Rightarrow> char" where
  "hex_digit n = (if n < 10 then char_of (48 + n) else char_of (87 + n))"

definition hex :: "nat \<Rightarrow> nat \<Rightarrow> unistr" where
  \<comment> \<open>the format \<open>{n:0wx}\<close>, for \<open>n < 16 ^ w\<close>\<close>
  "hex w n = map (\<lambda>k. of_char (hex_digit (n div 16 ^ k mod 16))) (rev [0..<w])"

definition repr_code :: "unicode_tables \<Rightarrow> nat \<Rightarrow> nat \<Rightarrow> unistr" where
  \<comment> \<open>one character of \<open>repr(s)\<close>, for \<open>s\<close> quoted with \<open>quote\<close>; 92 is the backslash\<close>
  "repr_code ucd quote c =
     (if c = quote \<or> c = 92 then [92, c]
      else if c = 9 then 92 # unistr ''t''
      else if c = 10 then 92 # unistr ''n''
      else if c = 13 then 92 # unistr ''r''
      else if c < 32 \<or> c = 127 then 92 # unistr ''x'' @ hex 2 c
      else if c < 127 then [c]
      else if c < 256 then
        (if (128 \<le> c \<and> c \<le> 160) \<or> c = 173 then 92 # unistr ''x'' @ hex 2 c else [c])
      else if wide_printable ucd c then [c]
      else if c < 65536 then 92 # unistr ''u'' @ hex 4 c
      else 92 # unistr ''U'' @ hex 8 c)"

definition repr_unistr :: "unicode_tables \<Rightarrow> unistr \<Rightarrow> unistr" where
  \<comment> \<open>\<open>repr(s)\<close> of a \<open>str\<close>: single quotes (39), unless \<open>s\<close> has a single quote and no
      double quote (34).\<close>
  "repr_unistr ucd s =
     (let quote = (if 39 \<in> set s \<and> 34 \<notin> set s then 34 else 39 :: nat)
      in quote # concat (map (repr_code ucd quote) s) @ [quote])"

section \<open>Paths\<close>

definition path_join :: "string \<Rightarrow> string \<Rightarrow> string" where
  \<comment> \<open>\<open>os.path.join(a, b)\<close> (posixpath)\<close>
  "path_join a b =
     (if startswith b ''/'' then b
      else if a = [] \<or> endswith a ''/'' then a @ b
      else a @ ''/'' @ b)"

definition splitext :: "string \<Rightarrow> string \<times> string" where
  \<comment> \<open>\<open>os.path.splitext(p)\<close> (posixpath): split at the last dot of the last path
      component, unless only dots precede it there.\<close>
  "splitext p =
     (let sepIndex = rfind p CHR ''/'';
          dotIndex = rfind p CHR ''.''
      in if dotIndex > sepIndex
            \<and> list_ex (\<lambda>x. x \<noteq> CHR ''.'') (drop (nat (sepIndex + 1)) (take (nat dotIndex) p))
         then (take (nat dotIndex) p, drop (nat dotIndex) p)
         else (p, []))"

section \<open>Query normalizer\<close>

definition remove_punctuations :: "string \<Rightarrow> string" where
  \<comment> \<open>\<open>remove_punctuations\<close>, on the content of the query box: the content it finds
      to the content it leaves. A box that is empty after \<open>strip\<close> is left untouched
      (the early \<open>return\<close>).\<close>
  "remove_punctuations text_entry =
     (let current_text = py_strip text_entry in
      if current_text = [] then text_entry
      else
        let cleaned_text = filter (\<lambda>char. char \<notin> set punctuation) current_text;
            cleaned_text = py_join '' '' (py_split cleaned_text)
        in cleaned_text)"

section \<open>Parsed metadata documents\<close>

datatype json =
    JNull
  | JBool bool
  | JInt int
  | JFloat string  \<comment> \<open>a float, carried as the text \<open>repr\<close> prints for it\<close>
  | JStr unistr
  | JArr "json list"
  | JObj "(unistr \<times> json) list"  \<comment> \<open>a \<open>dict\<close>, in insertion order\<close>

fun py_repr :: "unicode_tables \<Rightarrow> json \<Rightarrow> unistr" where
  \<comment> \<open>\<open>repr(x)\<close> of a value \<open>json.load\<close> returned\<close>
  "py_repr ucd JNull = unistr ''None''"
| "py_repr ucd (JBool b) = unistr (if b then ''True'' else ''False'')"
| "py_repr ucd (JInt i) = unistr (str_int i)"
| "py_repr ucd (JFloat s) = unistr s"
| "py_repr ucd (JStr s) = repr_unistr ucd s"
| "py_repr ucd (JArr xs) = unistr ''['' @ py_join (unistr '', '') (map (py_repr ucd) xs) @ unistr '']''"
| "py_repr ucd (JObj kvs) =
     unistr ''{''
     @ py_join (unistr '', '')
         (map (\<lambda>kv. repr_unistr ucd (fst kv) @ unistr '': '' @ py_repr ucd (snd kv)) kvs)
     @ unistr ''}''"

definition py_str :: "unicode_tables \<Rightarrow> json \<Rightarrow> unistr" where
  \<comment> \<open>\<open>str(media_data)\<close>: a \<open>str\<close> is its own text, every other value its \<open>repr\<close>\<close>
  "py_str ucd media_data = (case media_data of JStr s \<Rightarrow> s | _ \<Rightarrow> py_repr ucd media_data)"

section \<open>The dataset on disk\<close>

datatype node =
    Missing
  | Dir "string list"    \<comment> \<open>a directory: what \<open>os.listdir\<close> returns for it\<close>
  | File "json option"   \<comment> \<open>a file: what \<open>json.load\<close> returns for it, \<open>None\<close> when it raises\<close>

type_synonym filesystem = "string \<Rightarrow> node"

datatype error =
    MediaInfoNotFound         \<comment> \<open>\<open>Exception("Media info folder not found in database")\<close>\<close>
  | FileNotFoundError string
  | NotADirectoryError string
  | IsADirectoryError string
  | JSONDecodeError string
  | DatabaseSearchFailed error \<comment> \<open>\<open>Exception(f"Database search failed: {str(e)}")\<close>\<close>

definition path_exists :: "filesystem \<Rightarrow> string \<Rightarrow> bool" where
  \<comment> \<open>\<open>os.path.exists(p)\<close>\<close>
  "path_exists fs p = (fs p \<noteq> Missing)"

definition listdir :: "filesystem \<Rightarrow> string \<Rightarrow> error + string list" where
  \<comment> \<open>\<open>os.listdir(p)\<close>\<close>
  "listdir fs p =
     (case fs p of
        Dir names \<Rightarrow> Inr names
      | File _ \<Rightarrow> Inl (NotADirectoryError p)
      | Missing \<Rightarrow> Inl (FileNotFoundError p))"

definition json_load :: "filesystem \<Rightarrow> string \<Rightarrow> error + json" where
  \<comment> \<open>\<open>with open(p) as f: json.load(f)\<close>\<close>
  "json_load fs p =
     (case fs p of
        File (Some doc) \<Rightarrow> Inr doc
      | File None \<Rightarrow> Inl (JSONDecodeError p)
      | Dir _ \<Rightarrow> Inl (IsADirectoryError p)
      | Missing \<Rightarrow> Inl (FileNotFoundError p))"

section \<open>Result records\<close>

text \<open>
  A result is a Python \<open>dict\<close>; a key that a producer may leave out is an \<open>option\<close>,
  so that \<open>img.get(key, default)\<close> has its default branch.
\<close>

record frame_metadata =
  md_video_name :: "string option"
  frame_number :: int
  media_info :: "json option"
  md_timestamp :: "string option"

record result_record =
  frame_id :: string
  video_name :: "string option"
  keyframe_path :: "string option"
  image_url :: "string option"
  metadata :: "frame_metadata option"

section \<open>Linear metadata search\<close>

definition matches :: "unicode_tables \<Rightarrow> unistr \<Rightarrow> json \<Rightarrow> bool" where
  \<comment> \<open>\<open>text_query.lower() in str(media_data).lower()\<close>\<close>
  "matches ucd text_query media_data =
     py_in (unistr_lower ucd text_query) (unistr_lower ucd (py_str ucd media_data))"

definition keyframe_record :: "string \<Rightarrow> string \<Rightarrow> json \<Rightarrow> nat \<times> string \<Rightarrow> result_record" where
  \<comment> \<open>the body of the loop over \<open>enumerate(keyframe_files[:10])\<close>\<close>
  "keyframe_record keyframe_folder video_name' media_data ik =
     (let i = fst ik; keyframe_file = snd ik;
          frame_id' = fst (splitext keyframe_file);
          keyframe_path' = path_join keyframe_folder keyframe_file
      in \<lparr> frame_id = frame_id',
           video_name = Some video_name',
           keyframe_path = Some keyframe_path',
           image_url = None,
           metadata = Some \<lparr> md_video_name = Some (video_name' @ ''.mp4''),
                             frame_number = int i,
                             media_info = Some media_data,
                             md_timestamp = None \<rparr> \<rparr>)"

definition process_media_file ::
  "unicode_tables \<Rightarrow> filesystem \<Rightarrow> string \<Rightarrow> unistr \<Rightarrow> string \<Rightarrow> error + result_record list" where
  \<comment> \<open>the body of the inner \<open>try\<close>, for one \<open>media_file\<close>: the records it appends, or
      the exception it raises (nothing is appended before any raising call)\<close>
  "process_media_file ucd fs database_path text_query media_file =
     (let media_info_path = path_join database_path ''media-info'';
          keyframes_path = path_join database_path ''keyframes'';
          media_file_path = path_join media_info_path media_file
      in case json_load fs media_file_path of
           Inl e \<Rightarrow> Inl e
         | Inr media_data \<Rightarrow>
             let video_name' = fst (splitext media_file) in
             if matches ucd text_query media_data then
               let keyframe_folder = path_join keyframes_path video_name' in
               if path_exists fs keyframe_folder then
                 case listdir fs keyframe_folder of
                   Inl e \<Rightarrow> Inl e
                 | Inr names \<Rightarrow>
                     let keyframe_files = filter (\<lambda>f. endswith f ''.jpg'') names
                     in Inr (map (keyframe_record keyframe_folder video_name' media_data)
                               (enumerate 0 (take 10 keyframe_files)))
               else Inr []
             else Inr [])"

fun search_loop ::
  "unicode_tables \<Rightarrow> filesystem \<Rightarrow> string \<Rightarrow> unistr \<Rightarrow> result_record list \<Rightarrow> string list
     \<Rightarrow> result_record list" where
  \<comment> \<open>\<open>for media_file in media_files\<close>: an exception of the body is printed and the
      loop continues\<close>
  "search_loop ucd fs database_path text_query results [] = results"
| "search_loop ucd fs database_path text_query results (media_file # media_files) =
     (case process_media_file ucd fs database_path text_query media_file of
        Inl e \<Rightarrow> search_loop ucd fs database_path text_query results media_files
      | Inr new \<Rightarrow> search_loop ucd fs database_path text_query (results @ new) media_files)"

definition search_database_text ::
  "unicode_tables \<Rightarrow> filesystem \<Rightarrow> string \<Rightarrow> unistr \<Rightarrow> error + result_record list" where
  "search_database_text ucd fs database_path text_query =
     (let media_info_path = path_join database_path ''media-info'' in
      if \<not> path_exists fs media_info_path then Inl (DatabaseSearchFailed MediaInfoNotFound)
      else
        case listdir fs media_info_path of
          Inl e \<Rightarrow> Inl (DatabaseSearchFailed e)
        | Inr names \<Rightarrow>
            let media_files = filter (\<lambda>f. endswith f ''.json'') names
            in Inr (search_loop ucd fs database_path text_query [] media_files))"

definition mock_result :: "nat \<Rightarrow> result_record" where
  \<comment> \<open>the \<open>dict\<close> literal of the mock loop; of its two \<open>"frame_id"\<close> keys the later wins\<close>
  "mock_result i =
     \<lparr> frame_id = ''frame_'' @ zero_pad 4 i,
       video_name = Some (''video_'' @ str_nat (i div 5 + 1)),
       keyframe_path = None,
       image_url = Some (''https://picsum.photos/200/150?random='' @ str_nat i),
       metadata = Some \<lparr> md_video_name = Some (''sample_video_'' @ str_nat (i div 5 + 1) @ ''.mp4''),
                         frame_number = int (i * 10),
                         media_info = None,
                         md_timestamp = Some (''00:0'' @ str_nat (i div 10) @ '':'' @ zero_pad 2 ((i * 6) mod 60)) \<rparr> \<rparr>"

definition call_backend_text ::
  "bool \<Rightarrow> unicode_tables \<Rightarrow> filesystem \<Rightarrow> string \<Rightarrow> unistr \<Rightarrow> error + result_record list" where
  "call_backend_text use_mock_data ucd fs database_path text_query =
     (if \<not> use_mock_data then search_database_text ucd fs database_path text_query
      else Inr (map mock_result [0..<20]))"

section \<open>Result set\<close>

datatype task = KIS | QnA | TRAKE

record app_state =
  retrieved_images :: "result_record list"  \<comment> \<open>frame data, in the order the search produced\<close>
  selected_images :: "string list"          \<comment> \<open>the selected frame ids\<close>
  current_task :: task
  answer_entry :: string
  uploaded_txt_file :: "string option"      \<comment> \<open>\<open>base_name\<close> of the uploaded TXT file\<close>

definition update_results :: "app_state \<Rightarrow> result_record list \<Rightarrow> app_state" where
  \<comment> \<open>\<open>_update_results\<close>\<close>
  "update_results st results = st\<lparr>retrieved_images := results, selected_images := []\<rparr>"

definition toggle_selection :: "app_state \<Rightarrow> string \<Rightarrow> bool \<Rightarrow> app_state" where
  "toggle_selection st frame_id' is_selected =
     (if is_selected \<and> frame_id' \<notin> set (selected_images st)
        then st\<lparr>selected_images := selected_images st @ [frame_id']\<rparr>
      else if \<not> is_selected \<and> frame_id' \<in> set (selected_images st)
        then st\<lparr>selected_images := remove1 frame_id' (selected_images st)\<rparr>
      else st)"

definition clear_selection :: "app_state \<Rightarrow> app_state" where
  "clear_selection st = st\<lparr>selected_images := []\<rparr>"

definition select_all :: "app_state \<Rightarrow> app_state" where
  "select_all st = st\<lparr>selected_images := map frame_id (retrieved_images st)\<rparr>"

definition selection_invariant :: "app_state \<Rightarrow> bool" where
  \<comment> \<open>every selected id is the id of a current record\<close>
  "selection_invariant st = (set (selected_images st) \<subseteq> frame_id ` set (retrieved_images st))"

section \<open>Export writer\<close>

text \<open>
  The output side of the disk: the directories made and the files written. A CSV file is
  the list of its rows, a row the list of fields handed to \<open>writer.writerow\<close>.
\<close>

record disk =
  dirs :: "string list"
  files :: "(string \<times> string list list) list"

datatype message = ShowWarning string | ShowInfo string

definition task_name :: "task \<Rightarrow> string" where
  "task_name t = (case t of KIS \<Rightarrow> ''KIS'' | QnA \<Rightarrow> ''QnA'' | TRAKE \<Rightarrow> ''TRAKE'')"

definition resolve_video_name :: "result_record \<Rightarrow> string" where
  \<comment> \<open>\<open>img.get('metadata', {}).get('video_name', img.get('video_name', 'unknown'))\<close>\<close>
  "resolve_video_name img =
     (let fallback = (case video_name img of Some v \<Rightarrow> v | None \<Rightarrow> ''unknown'') in
      case metadata img of
        None \<Rightarrow> fallback
      | Some md \<Rightarrow> (case md_video_name md of Some v \<Rightarrow> v | None \<Rightarrow> fallback))"

fun group_append ::
  "(string \<times> string list) list \<Rightarrow> string \<Rightarrow> string \<Rightarrow> (string \<times> string list) list" where
  \<comment> \<open>\<open>if k not in videos: videos[k] = []\<close> then \<open>videos[k].append(v)\<close>, on a \<open>dict\<close>
      kept in insertion order\<close>
  "group_append [] k v = [(k, [v])]"
| "group_append ((k', vs) # videos) k v =
     (if k' = k then (k', vs @ [v]) # videos else (k', vs) # group_append videos k v)"

fun py_max :: "nat list \<Rightarrow> nat" where
  \<comment> \<open>\<open>max(...)\<close>; the empty case raises in Python and is never reached: the caller
      guards it with \<open>if selected_data\<close>\<close>
  "py_max [] = 0"
| "py_max (x # xs) = fold max xs x"

definition trake_rows :: "result_record list \<Rightarrow> string list list" where
  "trake_rows selected_data =
     (if selected_data \<noteq> [] then
        let videos = foldl (\<lambda>videos img. group_append videos (resolve_video_name img) (frame_id img))
                       [] selected_data;
            max_frames = py_max (map (\<lambda>kv. length (snd kv)) videos)
        in map (\<lambda>kv. [fst kv] @ snd kv @ replicate (max_frames - length (snd kv)) []) videos
      else [])"

definition csv_rows :: "app_state \<Rightarrow> task \<Rightarrow> string list list" where
  \<comment> \<open>the rows \<open>create_csv_file\<close> writes\<close>
  "csv_rows st t =
     (let selected_data = filter (\<lambda>img. frame_id img \<in> set (selected_images st)) (retrieved_images st)
      in case t of
           KIS \<Rightarrow> map (\<lambda>img. [resolve_video_name img, frame_id img]) selected_data
         | QnA \<Rightarrow>
             let answer = py_strip (answer_entry st)
             in map (\<lambda>img. [resolve_video_name img, frame_id img, answer]) selected_data
         | TRAKE \<Rightarrow> trake_rows selected_data)"

definition create_csv_file :: "app_state \<Rightarrow> string \<Rightarrow> string \<Rightarrow> disk \<Rightarrow> task \<Rightarrow> string \<times> disk" where
  \<comment> \<open>\<open>base_dir\<close> is the script's directory, \<open>timestamp\<close> the formatted \<open>datetime.now()\<close>\<close>
  "create_csv_file st base_dir timestamp d t =
     (let output_base = path_join base_dir ''output_csv'';
          output_dir = path_join output_base (timestamp @ ''-'' @ py_lower (task_name t));
          d = d\<lparr>dirs := dirs d @ [output_dir]\<rparr>;
          filename = (case uploaded_txt_file st of
                        Some base_name \<Rightarrow> base_name @ ''.csv''
                      | None \<Rightarrow> timestamp @ ''-'' @ py_lower (task_name t) @ ''.csv'');
          filepath = path_join output_dir filename
      in (filepath, d\<lparr>files := files d @ [(filepath, csv_rows st t)]\<rparr>))"

definition generate_csv :: "app_state \<Rightarrow> string \<Rightarrow> string \<Rightarrow> disk \<Rightarrow> message \<times> disk" where
  "generate_csv st base_dir timestamp d =
     (if selected_images st = [] then (ShowWarning ''No frames selected'', d)
      else
        let t = current_task st in
        if t = QnA \<and> py_strip (answer_entry st) = []
          then (ShowWarning ''Answer is required for QnA task'', d)
        else
          let (output_path, d') = create_csv_file st base_dir timestamp d t
          in (ShowInfo output_path, d'))"

section \<open>Auxiliary notions of the proofs\<close>

definition is_word :: "string \<Rightarrow> bool" where
  \<comment> \<open>a non-empty string without whitespace\<close>
  "is_word w = (w \<noteq> [] \<and> (\<forall>c\<in>set w. \<not> py_isspace c))"

definition file_records ::
  "unicode_tables \<Rightarrow> filesystem \<Rightarrow> string \<Rightarrow> unistr \<Rightarrow> string \<Rightarrow> result_record list" where
  \<comment> \<open>what one pass of the loop of \<open>search_database_text\<close> adds to \<open>results\<close>: the
      records of the file, or nothing when processing it raised\<close>
  "file_records ucd fs database_path text_query media_file =
     (case process_media_file ucd fs database_path text_query media_file of
        Inl e \<Rightarrow> [] | Inr new \<Rightarrow> new)"

definition selected_records :: "app_state \<Rightarrow> result_record list" where
  \<comment> \<open>\<open>selected_data\<close> of \<open>create_csv_file\<close>: the records an export job carries\<close>
  "selected_records st = filter (\<lambda>img. frame_id img \<in> set (selected_images st)) (retrieved_images st)"

definition frames_of :: "result_record list \<Rightarrow> string \<Rightarrow> string list" where
  \<comment> \<open>the frame ids of the records of one video, in the order of the records\<close>
  "frames_of sel v = map frame_id (filter (\<lambda>img. resolve_video_name img = v) sel)"

definition max_group :: "result_record list \<Rightarrow> nat" where
  \<comment> \<open>the size of the largest group of records of one video\<close>
  "max_group sel = Max ((\<lambda>img. length (frames_of sel (resolve_video_name img))) ` set sel)"

definition group_of :: "(string \<times> string list) list \<Rightarrow> string \<Rightarrow> string list" where
  \<comment> \<open>\<open>videos.get(k, [])\<close>\<close>
  "group_of videos k = (case map_of videos k of None \<Rightarrow> [] | Some frame_ids \<Rightarrow> frame_ids)"

definition ascii_case_variant :: "nat \<Rightarrow> nat \<Rightarrow> bool" where
  \<comment> \<open>the same character, or an ASCII letter (A-Z is 65-90) and its other case\<close>
  "ascii_case_variant c d =
     (c = d \<or> (65 \<le> c \<and> c \<le> 90 \<and> d = c + 32) \<or> (65 \<le> d \<and> d \<le> 90 \<and> c = d + 32))"

definition plain :: "unistr \<Rightarrow> bool" where
  \<comment> \<open>printable ASCII without the quotes (34, 39) and the backslash (92)\<close>
  "plain s = list_all (\<lambda>c. 32 \<le> c \<and> c < 127 \<and> c \<noteq> 34 \<and> c \<noteq> 39 \<and> c \<noteq> 92) s"

fun strings_of :: "json \<Rightarrow> unistr set" where
  \<comment> \<open>the keys and the string values of a document, at any depth\<close>
  "strings_of (JStr s) = {s}"
| "strings_of (JArr xs) = \<Union> (strings_of ` set xs)"
| "strings_of (JObj kvs) = \<Union> ((\<lambda>kv. insert (fst kv) (strings_of (snd kv))) ` set kvs)"
| "strings_of _ = {}"

section \<open>Example data\<close>

definition example_record :: "string \<Rightarrow> string \<Rightarrow> result_record" where
  "example_record v f =
     \<lparr> frame_id = f, video_name = Some v, keyframe_path = None, image_url = None, metadata = None \<rparr>"

definition example_state :: "result_record list \<Rightarrow> string list \<Rightarrow> task \<Rightarrow> string \<Rightarrow> app_state" where
  "example_state records selected t answer =
     \<lparr> retrieved_images = records, selected_images = selected, current_task = t,
       answer_entry = answer, uploaded_txt_file = None \<rparr>"

definition empty_disk :: disk where
  "empty_disk = \<lparr> dirs = [], files = [] \<rparr>"

definition example_ucd :: unicode_tables where
  \<comment> \<open>tables that leave every character from U+0100 on as it is, and print it\<close>
  "example_ucd = \<lparr> wide_lower = (\<lambda>s i. [s ! i]), wide_printable = (\<lambda>c. True) \<rparr>"

definition example_doc :: json where
  "example_doc = JObj [(unistr ''title'', JStr (unistr ''cat video''))]"

definition example_doc2 :: json where
  "example_doc2 = JObj [(unistr ''title'', JStr (unistr ''Cat Show''))]"

definition example_keyframes :: "string list" where
  "example_keyframes = map (\<lambda>i. zero_pad 3 i @ ''.jpg'') [1..<13]"

definition example_fs :: filesystem where
  "example_fs p =
     (if p = ''/db/media-info'' then Dir [''v1.json'']
      else if p = ''/db/media-info/v1.json'' then File (Some example_doc)
      else if p = ''/db/keyframes/v1'' then Dir example_keyframes
      else Missing)"

definition example_fs2 :: filesystem where
  "example_fs2 p =
     (if p = ''/db/media-info'' then Dir [''v1.json'', ''v2.json'']
      else if p = ''/db/media-info/v1.json'' then File (Some example_doc)
      else if p = ''/db/media-info/v2.json'' then File (Some example_doc2)
      else if p = ''/db/keyframes/v1'' then Dir [''001.jpg'']
      else if p = ''/db/keyframes/v2'' then Dir [''001.jpg'']
      else Missing)"

definition example_trake :: app_state where
  "example_trake = example_state
     [example_record ''A'' ''f1'', example_record ''B'' ''f3'', example_record ''A'' ''f2'']
     [''f3'', ''f2'', ''f1''] TRAKE []"

definition example_search2 :: "result_record list" where
  "example_search2 =
     (case search_database_text example_ucd example_fs2 ''/db'' (unistr ''cat'') of
        Inr results \<Rightarrow> results | Inl e \<Rightarrow> [])"

section \<open>Facts about the string functions\<close>

lemma py_split_Nil [simp]: "py_split [] = []"
  by (simp add: py_split.simps)

lemma py_split_words:
  "w \<in> set (py_split s) \<Longrightarrow> w \<noteq> [] \<and> (\<forall>c\<in>set w. \<not> py_isspace c) \<and> set w \<subseteq> set s"
proof (induction s arbitrary: w rule: py_split.induct)
  case (1 s)
  show ?case
  proof (cases "dropWhile py_isspace s")
    case Nil
    with "1.prems" show ?thesis by (simp add: py_split.simps)
  next
    case (Cons c cs)
    have sub: "set (c # cs) \<subseteq> set s"
      using set_dropWhileD [of _ py_isspace s] Cons by (metis subsetI)
    have cns: "\<not> py_isspace c"
      using hd_dropWhile [of py_isspace s] Cons by simp
    from "1.prems" Cons have
      "w = c # takeWhile (\<lambda>x. \<not> py_isspace x) cs \<or> w \<in> set (py_split (dropWhile (\<lambda>x. \<not> py_isspace x) cs))"
      by (simp add: py_split.simps [of s])
    then show ?thesis
    proof
      assume w: "w = c # takeWhile (\<lambda>x. \<not> py_isspace x) cs"
      with cns sub show ?thesis
        by (auto dest: set_takeWhileD)
    next
      assume "w \<in> set (py_split (dropWhile (\<lambda>x. \<not> py_isspace x) cs))"
      from "1.IH" [OF Cons this] have
        "w \<noteq> [] \<and> (\<forall>c\<in>set w. \<not> py_isspace c) \<and> set w \<subseteq> set (dropWhile (\<lambda>x. \<not> py_isspace x) cs)" .
      with sub show ?thesis
        by (auto dest: set_dropWhileD)
    qed
  qed
qed

lemma space_isspace [simp]: "py_isspace CHR '' ''"
  by (simp add: py_isspace_def)

lemma py_split_word_append:
  assumes "is_word w"
  shows "py_split (w @ CHR '' '' # s) = w # py_split s"
proof -
  from assms obtain c cs where wc: "w = c # cs" by (cases w) (auto simp: is_word_def)
  from assms wc have c: "\<not> py_isspace c" and cs: "\<forall>x\<in>set cs. \<not> py_isspace x"
    by (auto simp: is_word_def)
  have d: "dropWhile py_isspace (c # cs @ CHR '' '' # s) = c # cs @ CHR '' '' # s"
    using c by simp
  have t: "takeWhile (\<lambda>x. \<not> py_isspace x) (cs @ CHR '' '' # s) = cs"
    using cs by (simp add: takeWhile_append2)
  have r: "dropWhile (\<lambda>x. \<not> py_isspace x) (cs @ CHR '' '' # s) = CHR '' '' # s"
    using cs by (simp add: dropWhile_append2)
  have e: "py_split (CHR '' '' # s) = py_split s"
    by (simp add: py_split.simps [of "CHR '' '' # s"] py_split.simps [of s])
  have "py_split (c # cs @ CHR '' '' # s) = (c # cs) # py_split s"
    by (subst py_split.simps) (simp add: c t r e)
  then show ?thesis by (simp add: wc)
qed

lemma py_split_word:
  assumes "is_word w"
  shows "py_split w = [w]"
proof -
  from assms obtain c cs where wc: "w = c # cs" by (cases w) (auto simp: is_word_def)
  from assms wc have c: "\<not> py_isspace c" and cs: "\<forall>x\<in>set cs. \<not> py_isspace x"
    by (auto simp: is_word_def)
  have d: "dropWhile py_isspace (c # cs) = c # cs"
    using c by simp
  have t: "takeWhile (\<lambda>x. \<not> py_isspace x) cs = cs"
    using cs by simp
  have r: "dropWhile (\<lambda>x. \<not> py_isspace x) cs = []"
    using cs by simp
  have "py_split (c # cs) = [c # cs]"
    by (subst py_split.simps) (simp add: c t r)
  then show ?thesis by (simp add: wc)
qed

lemma py_split_join:
  "\<forall>w\<in>set ws. is_word w \<Longrightarrow> py_split (py_join '' '' ws) = ws"
proof (induction "'' ''" ws rule: py_join.induct)
  case 1 then show ?case by simp
next
  case (2 w) then show ?case by (simp add: py_split_word)
next
  case (3 w v vs)
  have "py_join '' '' (w # v # vs) = w @ CHR '' '' # py_join '' '' (v # vs)"
    by simp
  with 3 show ?case by (simp only: py_split_word_append list.set ball_simps insert_iff) simp
qed

lemma py_join_hd_last:
  "ws \<noteq> [] \<Longrightarrow> \<forall>w\<in>set ws. is_word w \<Longrightarrow>
     py_join '' '' ws \<noteq> [] \<and> hd (py_join '' '' ws) = hd (hd ws) \<and> last (py_join '' '' ws) = last (last ws)"
proof (induction "'' ''" ws rule: py_join.induct)
  case 1 then show ?case by simp
next
  case (2 w) then show ?case by (simp add: is_word_def)
next
  case (3 w v vs)
  then show ?case by (auto simp: is_word_def)
qed

lemma py_strip_id:
  "s \<noteq> [] \<Longrightarrow> \<not> py_isspace (hd s) \<Longrightarrow> \<not> py_isspace (last s) \<Longrightarrow> py_strip s = s"
proof -
  assume a: "s \<noteq> []" "\<not> py_isspace (hd s)" "\<not> py_isspace (last s)"
  then have 1: "dropWhile py_isspace s = s" by (cases s) auto
  from a have "rev s \<noteq> []" "\<not> py_isspace (hd (rev s))" by (auto simp: hd_rev)
  then have 2: "dropWhile py_isspace (rev s) = rev s" by (cases "rev s") auto
  show ?thesis by (simp add: py_strip_def 1 2)
qed

lemma space_not_punct: "CHR '' '' \<notin> set punctuation"
  by code_simp

lemma filter_join:
  "\<forall>w\<in>set ws. \<forall>c\<in>set w. c \<notin> set punctuation \<Longrightarrow>
   filter (\<lambda>char. char \<notin> set punctuation) (py_join '' '' ws) = py_join '' '' ws"
proof (induction "'' ''" ws rule: py_join.induct)
  case 1 then show ?case by simp
next
  case (2 w) then show ?case by (simp add: filter_id_conv)
next
  case (3 w v vs)
  then show ?case using space_not_punct by (simp add: filter_id_conv)
qed


section \<open>Query normalizer: properties\<close>

lemma remove_punctuations_Nil: "remove_punctuations [] = []"
  by (simp add: remove_punctuations_def py_strip_def)

lemma remove_punctuations_example: "remove_punctuations ''a, b!  c'' = ''a b c''"
  by code_simp

lemma remove_punctuations_idem:
  "remove_punctuations (remove_punctuations x) = remove_punctuations x"
proof (cases "py_strip x = []")
  case True
  then show ?thesis by (simp add: remove_punctuations_def)
next
  case False
  define t where "t = filter (\<lambda>char. char \<notin> set punctuation) (py_strip x)"
  define ws where "ws = py_split t"
  have y: "remove_punctuations x = py_join '' '' ws"
    using False by (simp add: remove_punctuations_def t_def ws_def)
  have words: "\<forall>w\<in>set ws. is_word w"
    using py_split_words [of _ t] by (auto simp: ws_def is_word_def)
  have nop: "\<forall>w\<in>set ws. \<forall>c\<in>set w. c \<notin> set punctuation"
  proof (intro ballI)
    fix w c assume "w \<in> set ws" "c \<in> set w"
    with py_split_words [of w t] have "c \<in> set t" by (auto simp: ws_def)
    then show "c \<notin> set punctuation" by (simp add: t_def)
  qed
  show ?thesis
  proof (cases "ws = []")
    case True
    with y show ?thesis by (simp add: remove_punctuations_Nil)
  next
    case ne: False
    let ?y = "py_join '' '' ws"
    from py_join_hd_last [OF ne words] have
      yne: "?y \<noteq> []" and h: "hd ?y = hd (hd ws)" and l: "last ?y = last (last ws)" by auto
    from ne words have "is_word (hd ws)" "is_word (last ws)" by auto
    then have "\<not> py_isspace (hd (hd ws))" "\<not> py_isspace (last (last ws))"
      by (auto simp: is_word_def)
    with h l have "\<not> py_isspace (hd ?y)" "\<not> py_isspace (last ?y)" by auto
    with yne have st: "py_strip ?y = ?y" by (simp add: py_strip_id)
    have "remove_punctuations ?y = ?y"
      using yne by (simp add: remove_punctuations_def st filter_join [OF nop] py_split_join [OF words])
    with y show ?thesis by simp
  qed
qed

text \<open>
  Claim C6. The query normalization is idempotent: normalizing a normalized text changes
  nothing, for every input. The text \<open>a, b!  c\<close> normalizes to \<open>a b c\<close>, and the empty
  text to the empty text. (The function works on the content of the query box; a box that
  holds only whitespace is reported as having no text and left as it is.)
\<close>

theorem normalize_idempotent:
  "remove_punctuations (remove_punctuations x) = remove_punctuations x
   \<and> remove_punctuations ''a, b!  c'' = ''a b c''
   \<and> remove_punctuations [] = []"
  by (simp only: remove_punctuations_idem remove_punctuations_example remove_punctuations_Nil)

section \<open>Search: a missing metadata collection\<close>

text \<open>
  Claim C4. When the \<open>media-info\<close> directory of the dataset root is absent, the search
  fails: it raises the "media info folder not found" error (wrapped as a failed database
  search) and does not return an empty result sequence. The same holds for the text
  back end when it runs on the real dataset.
\<close>

theorem search_missing_media_info:
  "fs (path_join database_path ''media-info'') = Missing \<Longrightarrow>
     search_database_text ucd fs database_path text_query = Inl (DatabaseSearchFailed MediaInfoNotFound)
     \<and> search_database_text ucd fs database_path text_query \<noteq> Inr []
     \<and> call_backend_text False ucd fs database_path text_query = Inl (DatabaseSearchFailed MediaInfoNotFound)"
  by (simp add: search_database_text_def call_backend_text_def path_exists_def)

theorem search_missing_media_info_witness:
  "(\<lambda>p. Missing) (path_join ''/db'' ''media-info'') = Missing
   \<and> search_database_text example_ucd (\<lambda>p. Missing) ''/db'' (unistr ''cat'') = Inl (DatabaseSearchFailed MediaInfoNotFound)
   \<and> search_database_text example_ucd (\<lambda>p. Missing) ''/db'' (unistr ''cat'') \<noteq> Inr []"
  using search_missing_media_info
    [where fs = "\<lambda>p. Missing" and database_path = "''/db''" and ucd = example_ucd
       and text_query = "unistr ''cat''"]
  by simp

section \<open>Search: the match rule\<close>

lemma startswith_iff: "startswith b a \<longleftrightarrow> (\<exists>ss. b = a @ ss)"
proof
  assume "startswith b a"
  then have "b = a @ drop (length a) b"
    by (metis append_take_drop_id startswith_def)
  then show "\<exists>ss. b = a @ ss" ..
next
  assume "\<exists>ss. b = a @ ss"
  then show "startswith b a" by (auto simp: startswith_def)
qed

lemma py_in_iff: "py_in a b \<longleftrightarrow> (\<exists>ps ss. b = ps @ a @ ss)"
proof (induction b)
  case Nil
  then show ?case by simp
next
  case (Cons c cs)
  show ?case
  proof
    assume "py_in a (c # cs)"
    then consider "startswith (c # cs) a" | "py_in a cs" by auto
    then show "\<exists>ps ss. c # cs = ps @ a @ ss"
    proof cases
      case 1
      then obtain ss where "c # cs = a @ ss" by (auto simp: startswith_iff)
      then have "c # cs = [] @ a @ ss" by simp
      then show ?thesis by blast
    next
      case 2
      with Cons obtain ps ss where "cs = ps @ a @ ss" by blast
      then have "c # cs = (c # ps) @ a @ ss" by simp
      then show ?thesis by blast
    qed
  next
    assume "\<exists>ps ss. c # cs = ps @ a @ ss"
    then obtain ps ss where e: "c # cs = ps @ a @ ss" by blast
    show "py_in a (c # cs)"
    proof (cases ps)
      case Nil
      with e have "startswith (c # cs) a" by (auto simp: startswith_iff)
      then show ?thesis by simp
    next
      case (Cons p ps')
      with e have "cs = ps' @ a @ ss" by simp
      with Cons.IH have "py_in a cs" by blast
      then show ?thesis by simp
    qed
  qed
qed

lemma concat_singletons:
  "(\<And>x. x \<in> set xs \<Longrightarrow> f x = [g x]) \<Longrightarrow> concat (map f xs) = map g xs"
  by (induction xs) simp_all

lemma map_nth_upt: "map (\<lambda>i. g (s ! i)) [0..<length s] = map g s"
  by (rule nth_equalityI) simp_all

lemma unistr_lower_latin1:
  assumes "\<forall>c\<in>set s. c < 256"
  shows "unistr_lower ucd s = map lower_code s"
proof -
  have "concat (map (lower_at ucd s) [0..<length s]) = map (\<lambda>i. lower_code (s ! i)) [0..<length s]"
    using assms by (intro concat_singletons) (simp add: lower_at_def)
  then show ?thesis
    by (simp only: unistr_lower_def map_nth_upt)
qed

lemma unistr_lower_inside:
  assumes "\<forall>c\<in>set k. c < 256"
  shows "\<exists>A B. unistr_lower ucd (ps @ k @ ss) = A @ map lower_code k @ B"
proof -
  let ?s = "ps @ k @ ss"
  let ?m = "length ps" and ?n = "length k" and ?l = "length ss"
  have 1: "[0..<(?m + ?n) + ?l] = [0..<?m + ?n] @ [?m + ?n..<(?m + ?n) + ?l]"
    by (rule upt_add_eq_append) simp
  have 2: "[0..<?m + ?n] = [0..<?m] @ [?m..<?m + ?n]"
    by (rule upt_add_eq_append) simp
  have 3: "[?m..<?m + ?n] = map (\<lambda>j. j + ?m) [0..<?n]"
    by (simp add: map_add_upt add.commute)
  have len: "length ?s = (?m + ?n) + ?l" by simp
  have "concat (map (lower_at ucd ?s) (map (\<lambda>j. j + ?m) [0..<?n]))
          = concat (map (\<lambda>j. lower_at ucd ?s (j + ?m)) [0..<?n])"
    by (simp add: comp_def)
  also have "\<dots> = map (\<lambda>j. lower_code (k ! j)) [0..<?n]"
    using assms by (intro concat_singletons) (simp add: lower_at_def nth_append)
  also have "\<dots> = map lower_code k" by (rule map_nth_upt)
  finally have mid: "concat (map (lower_at ucd ?s) [?m..<?m + ?n]) = map lower_code k"
    by (simp only: 3)
  have "unistr_lower ucd ?s
      = concat (map (lower_at ucd ?s) [0..<?m]) @ map lower_code k
        @ concat (map (lower_at ucd ?s) [?m + ?n..<(?m + ?n) + ?l])"
    unfolding unistr_lower_def len 1 2 by (simp only: map_append concat_append mid append_assoc)
  then show ?thesis by blast
qed

lemma case_variant_lower: "ascii_case_variant c d \<Longrightarrow> lower_code c = lower_code d"
  by (auto simp: ascii_case_variant_def lower_code_def)

lemma case_variant_latin1: "ascii_case_variant c d \<Longrightarrow> c < 256 \<Longrightarrow> d < 256"
  by (auto simp: ascii_case_variant_def)

lemma case_variants_lower:
  "list_all2 ascii_case_variant q q' \<Longrightarrow> map lower_code q = map lower_code q'"
  by (induction rule: list_all2_induct) (simp_all add: case_variant_lower)

lemma case_variants_latin1:
  "list_all2 ascii_case_variant q q' \<Longrightarrow> \<forall>c\<in>set q. c < 256 \<Longrightarrow> \<forall>c\<in>set q'. c < 256"
  by (induction rule: list_all2_induct) (auto dest: case_variant_latin1)

lemma case_variants_unistr_lower:
  assumes "list_all2 ascii_case_variant q q'" and "\<forall>c\<in>set q. c < 256"
  shows "unistr_lower ucd q = unistr_lower ucd q'"
  using assms case_variants_latin1 [OF assms] case_variants_lower [OF assms(1)]
  by (simp add: unistr_lower_latin1)

lemma py_join_member: "x \<in> set xs \<Longrightarrow> \<exists>A B. py_join sep xs = A @ x @ B"
proof (induction sep xs rule: py_join.induct)
  case (1 sep)
  then show ?case by simp
next
  case (2 sep w)
  then have "py_join sep [w] = [] @ x @ []" by simp
  then show ?case by blast
next
  case (3 sep w v vs)
  show ?case
  proof (cases "x = w")
    case True
    then have "py_join sep (w # v # vs) = [] @ x @ (sep @ py_join sep (v # vs))" by simp
    then show ?thesis by blast
  next
    case False
    with 3 obtain A B where "py_join sep (v # vs) = A @ x @ B" by auto
    then have "py_join sep (w # v # vs) = (w @ sep @ A) @ x @ B" by simp
    then show ?thesis by blast
  qed
qed

lemma plain_latin1: "plain s \<Longrightarrow> \<forall>c\<in>set s. c < 256"
  by (auto simp: plain_def list_all_iff)

lemma repr_plain: "plain s \<Longrightarrow> repr_unistr ucd s = 39 # s @ [39]"
proof -
  assume p: "plain s"
  then have q: "39 \<notin> set s" by (auto simp: plain_def list_all_iff)
  have "concat (map (repr_code ucd 39) s) = map (\<lambda>c. c) s"
    using p by (intro concat_singletons) (auto simp: plain_def list_all_iff repr_code_def)
  with q show ?thesis by (simp add: repr_unistr_def)
qed

lemma strings_of_repr:
  "s \<in> strings_of doc \<Longrightarrow> \<exists>A B. py_repr ucd doc = A @ repr_unistr ucd s @ B"
proof (induction doc)
  case (JStr t)
  then have "py_repr ucd (JStr t) = [] @ repr_unistr ucd s @ []" by simp
  then show ?case by blast
next
  case (JArr xs)
  then obtain x where x: "x \<in> set xs" and s: "s \<in> strings_of x" by auto
  with JArr.IH obtain A B where "py_repr ucd x = A @ repr_unistr ucd s @ B" by blast
  moreover obtain C D where "py_join (unistr '', '') (map (py_repr ucd) xs) = C @ py_repr ucd x @ D"
    using py_join_member [of "py_repr ucd x" "map (py_repr ucd) xs" "unistr '', ''"] x by auto
  ultimately have "py_repr ucd (JArr xs)
      = (unistr ''['' @ C @ A) @ repr_unistr ucd s @ (B @ D @ unistr '']'')"
    by simp
  then show ?case by blast
next
  case (JObj kvs)
  let ?item = "\<lambda>kv. repr_unistr ucd (fst kv) @ unistr '': '' @ py_repr ucd (snd kv)"
  from JObj.prems obtain kv where kv: "kv \<in> set kvs"
    and s: "s = fst kv \<or> s \<in> strings_of (snd kv)" by auto
  have "\<exists>A B. ?item kv = A @ repr_unistr ucd s @ B"
  proof (cases "s = fst kv")
    case True
    then have "?item kv = [] @ repr_unistr ucd s @ (unistr '': '' @ py_repr ucd (snd kv))" by simp
    then show ?thesis by blast
  next
    case False
    with s have "s \<in> strings_of (snd kv)" by simp
    moreover have "snd kv \<in> Basic_BNFs.snds kv" by (cases kv) simp
    ultimately obtain A B where "py_repr ucd (snd kv) = A @ repr_unistr ucd s @ B"
      using JObj.IH kv by blast
    then have "?item kv = (repr_unistr ucd (fst kv) @ unistr '': '' @ A) @ repr_unistr ucd s @ B"
      by simp
    then show ?thesis by blast
  qed
  then obtain A B where ab: "?item kv = A @ repr_unistr ucd s @ B" by blast
  obtain C D where "py_join (unistr '', '') (map ?item kvs) = C @ ?item kv @ D"
    using py_join_member [of "?item kv" "map ?item kvs" "unistr '', ''"] kv by auto
  with ab have "py_repr ucd (JObj kvs)
      = (unistr ''{'' @ C @ A) @ repr_unistr ucd s @ (B @ D @ unistr ''}'')"
    by simp
  then show ?case by blast
qed simp_all

lemma py_str_contains:
  assumes "s \<in> strings_of doc" and "plain s"
  shows "\<exists>P S. py_str ucd doc = P @ s @ S"
proof (cases "\<exists>t. doc = JStr t")
  case True
  with assms(1) have "py_str ucd doc = [] @ s @ []" by (auto simp: py_str_def)
  then show ?thesis by blast
next
  case False
  then have "py_str ucd doc = py_repr ucd doc" by (cases doc) (simp_all add: py_str_def)
  moreover obtain A B where "py_repr ucd doc = A @ repr_unistr ucd s @ B"
    using strings_of_repr [OF assms(1)] by blast
  ultimately have "py_str ucd doc = (A @ [39]) @ s @ ([39] @ B)"
    using assms(2) by (simp add: repr_plain)
  then show ?thesis by blast
qed

lemma matches_iff:
  "matches ucd q doc \<longleftrightarrow> (\<exists>ps ss. unistr_lower ucd (py_str ucd doc) = ps @ unistr_lower ucd q @ ss)"
  by (simp add: matches_def py_in_iff)

lemma matches_string:
  assumes "s \<in> strings_of doc" and "plain s" and "list_all2 ascii_case_variant s q"
  shows "matches ucd q doc"
proof -
  have l: "\<forall>c\<in>set s. c < 256" using assms(2) by (rule plain_latin1)
  obtain P S where "py_str ucd doc = P @ s @ S"
    using py_str_contains [OF assms(1,2)] by blast
  then obtain A B where "unistr_lower ucd (py_str ucd doc) = A @ map lower_code s @ B"
    using unistr_lower_inside [OF l, of ucd P S] by auto
  moreover have "unistr_lower ucd q = map lower_code s"
    using case_variants_unistr_lower [OF assms(3) l, of ucd] l by (simp add: unistr_lower_latin1)
  ultimately show ?thesis unfolding matches_iff by auto
qed

lemma matches_case:
  assumes "list_all2 ascii_case_variant q q'" and "\<forall>c\<in>set q. c < 256"
  shows "matches ucd q doc = matches ucd q' doc"
  by (simp add: matches_def case_variants_unistr_lower [OF assms])

lemma search_loop_eq:
  "search_loop ucd fs db q results media_files
     = results @ concat (map (file_records ucd fs db q) media_files)"
  by (induction media_files arbitrary: results) (auto simp: file_records_def split: sum.splits)

lemma file_records_no_match:
  "(\<And>doc. json_load fs (path_join (path_join db ''media-info'') f) = Inr doc \<Longrightarrow> \<not> matches ucd q doc)
    \<Longrightarrow> file_records ucd fs db q f = []"
  by (auto simp: file_records_def process_media_file_def Let_def split: sum.splits)

lemma file_records_video_name:
  "r \<in> set (file_records ucd fs db q f) \<Longrightarrow> video_name r = Some (fst (splitext f))"
  by (auto simp: file_records_def process_media_file_def Let_def keyframe_record_def
      split: sum.splits if_splits)

lemma search_Dir:
  "fs (path_join db ''media-info'') = Dir names \<Longrightarrow>
   search_database_text ucd fs db q =
     Inr (concat (map (file_records ucd fs db q) (filter (\<lambda>f. endswith f ''.json'') names)))"
  by (simp add: search_database_text_def path_exists_def listdir_def search_loop_eq)

lemma file_records_match:
  assumes "json_load fs (path_join (path_join db ''media-info'') f) = Inr doc"
    and "matches ucd q doc"
    and "fs (path_join (path_join db ''keyframes'') (fst (splitext f))) = Dir listing"
  shows "file_records ucd fs db q f =
           map (keyframe_record (path_join (path_join db ''keyframes'') (fst (splitext f)))
                  (fst (splitext f)) doc)
             (enumerate 0 (take 10 (filter (\<lambda>k. endswith k ''.jpg'') listing)))"
  using assms
  by (simp add: file_records_def process_media_file_def path_exists_def listdir_def Let_def)

lemma file_records_no_keyframes:
  assumes "fs (path_join (path_join db ''keyframes'') (fst (splitext f))) = Missing"
  shows "file_records ucd fs db q f = []"
  using assms
  by (auto simp: file_records_def process_media_file_def path_exists_def Let_def split: sum.splits)

lemma example_fs2_media_info:
  "example_fs2 (path_join ''/db'' ''media-info'') = Dir [''v1.json'', ''v2.json'']"
  by code_simp

lemma example_fs2_v1:
  "json_load example_fs2 (path_join (path_join ''/db'' ''media-info'') ''v1.json'') = Inr example_doc"
  by code_simp

lemma example_fs2_v2:
  "json_load example_fs2 (path_join (path_join ''/db'' ''media-info'') ''v2.json'') = Inr example_doc2"
  by code_simp

lemma example_dog: "\<not> matches example_ucd (unistr ''dog'') example_doc"
  by code_simp

lemma example_dog2: "\<not> matches example_ucd (unistr ''dog'') example_doc2"
  by code_simp

lemma example_cat: "matches example_ucd (unistr ''cat'') example_doc"
  by code_simp

lemma example_value: "unistr ''cat video'' \<in> strings_of example_doc"
  by (simp add: example_doc_def)

lemma example_plain: "plain (unistr ''cat video'')"
  by code_simp

lemma example_variant: "list_all2 ascii_case_variant (unistr ''cat video'') (unistr ''CAT VIDEO'')"
  by code_simp

lemma example_search_show:
  "map_sum id (map (\<lambda>r. (video_name r, frame_id r)))
     (search_database_text example_ucd example_fs2 ''/db'' (unistr ''SHOW''))
   = Inr [(Some ''v2'', ''001'')]"
  by code_simp

lemma example_search_title:
  "map_sum id (map (\<lambda>r. (video_name r, frame_id r)))
     (search_database_text example_ucd example_fs2 ''/db'' (unistr ''Title''))
   = Inr [(Some ''v1'', ''001''), (Some ''v2'', ''001'')]"
  by code_simp

text \<open>
  Claim C3. For every query, every document and any Unicode tables, the document matches
  exactly when the lower-cased query occurs as a substring of the lower-cased \<open>str\<close> of
  the whole parsed document. The test ignores case: a query of characters below U+0100
  and the same query with ASCII letters in the other case match the same documents. The
  serialization holds the keys and the values: a query that is, up to the case of ASCII
  letters, a key or a string value of the document (at any depth, in printable ASCII
  without quotes and backslash) matches. The search returns, in listing order of the
  \<open>.json\<close> files, the records of each file; a file whose document does not match
  contributes no record; a file whose document matches contributes one record for each
  of the first ten \<open>.jpg\<close> files of its keyframe directory; every record of a file carries
  that file's video id; and when no file of the listing matches, the search succeeds with
  the empty sequence.
\<close>

theorem search_match_rule:
  assumes "fs (path_join database_path ''media-info'') = Dir names"
  shows "(matches ucd text_query doc
            \<longleftrightarrow> (\<exists>ps ss. unistr_lower ucd (py_str ucd doc) = ps @ unistr_lower ucd text_query @ ss))
    \<and> (\<forall>q'. (\<forall>c\<in>set text_query. c < 256) \<and> list_all2 ascii_case_variant text_query q'
            \<longrightarrow> matches ucd q' doc = matches ucd text_query doc)
    \<and> (\<forall>s\<in>strings_of doc. plain s \<and> list_all2 ascii_case_variant s text_query
            \<longrightarrow> matches ucd text_query doc)
    \<and> search_database_text ucd fs database_path text_query =
        Inr (concat (map (file_records ucd fs database_path text_query)
                      (filter (\<lambda>f. endswith f ''.json'') names)))
    \<and> (\<forall>f. (\<forall>d. json_load fs (path_join (path_join database_path ''media-info'') f) = Inr d
                 \<longrightarrow> \<not> matches ucd text_query d)
          \<longrightarrow> file_records ucd fs database_path text_query f = [])
    \<and> (\<forall>f d listing.
          json_load fs (path_join (path_join database_path ''media-info'') f) = Inr d
          \<and> matches ucd text_query d
          \<and> fs (path_join (path_join database_path ''keyframes'') (fst (splitext f))) = Dir listing
          \<longrightarrow> file_records ucd fs database_path text_query f =
                map (keyframe_record (path_join (path_join database_path ''keyframes'') (fst (splitext f)))
                       (fst (splitext f)) d)
                  (enumerate 0 (take 10 (filter (\<lambda>k. endswith k ''.jpg'') listing))))
    \<and> (\<forall>f. \<forall>r\<in>set (file_records ucd fs database_path text_query f).
          video_name r = Some (fst (splitext f)))
    \<and> ((\<forall>f\<in>set names. \<forall>d. json_load fs (path_join (path_join database_path ''media-info'') f) = Inr d
                 \<longrightarrow> \<not> matches ucd text_query d)
          \<longrightarrow> search_database_text ucd fs database_path text_query = Inr [])"
proof -
  have 1: "matches ucd text_query doc
            \<longleftrightarrow> (\<exists>ps ss. unistr_lower ucd (py_str ucd doc) = ps @ unistr_lower ucd text_query @ ss)"
    by (rule matches_iff)
  have 2: "\<forall>q'. (\<forall>c\<in>set text_query. c < 256) \<and> list_all2 ascii_case_variant text_query q'
            \<longrightarrow> matches ucd q' doc = matches ucd text_query doc"
    using matches_case [of text_query _ ucd doc] by auto
  have 3: "\<forall>s\<in>strings_of doc. plain s \<and> list_all2 ascii_case_variant s text_query
            \<longrightarrow> matches ucd text_query doc"
    using matches_string [of _ doc text_query ucd] by blast
  have 4: "search_database_text ucd fs database_path text_query =
        Inr (concat (map (file_records ucd fs database_path text_query)
                      (filter (\<lambda>f. endswith f ''.json'') names)))"
    using assms by (rule search_Dir)
  have 5: "\<forall>f. (\<forall>d. json_load fs (path_join (path_join database_path ''media-info'') f) = Inr d
                 \<longrightarrow> \<not> matches ucd text_query d)
          \<longrightarrow> file_records ucd fs database_path text_query f = []"
    using file_records_no_match [of fs database_path _ ucd text_query] by blast
  have 6: "\<forall>f d listing.
          json_load fs (path_join (path_join database_path ''media-info'') f) = Inr d
          \<and> matches ucd text_query d
          \<and> fs (path_join (path_join database_path ''keyframes'') (fst (splitext f))) = Dir listing
          \<longrightarrow> file_records ucd fs database_path text_query f =
                map (keyframe_record (path_join (path_join database_path ''keyframes'') (fst (splitext f)))
                       (fst (splitext f)) d)
                  (enumerate 0 (take 10 (filter (\<lambda>k. endswith k ''.jpg'') listing)))"
    using file_records_match [of fs database_path _ _ ucd text_query] by blast
  have 7: "\<forall>f. \<forall>r\<in>set (file_records ucd fs database_path text_query f).
          video_name r = Some (fst (splitext f))"
    using file_records_video_name by blast
  have 8: "(\<forall>f\<in>set names. \<forall>d. json_load fs (path_join (path_join database_path ''media-info'') f) = Inr d
                 \<longrightarrow> \<not> matches ucd text_query d)
          \<longrightarrow> search_database_text ucd fs database_path text_query = Inr []"
  proof
    assume a: "\<forall>f\<in>set names. \<forall>d. json_load fs (path_join (path_join database_path ''media-info'') f) = Inr d
                 \<longrightarrow> \<not> matches ucd text_query d"
    have "\<forall>f\<in>set (filter (\<lambda>f. endswith f ''.json'') names). file_records ucd fs database_path text_query f = []"
      using a 5 by auto
    then have "concat (map (file_records ucd fs database_path text_query)
                      (filter (\<lambda>f. endswith f ''.json'') names)) = []"
      by simp
    with 4 show "search_database_text ucd fs database_path text_query = Inr []" by simp
  qed
  from 1 2 3 4 5 6 7 8 show ?thesis by (intro conjI)
qed

theorem search_match_rule_witness:
  "example_fs2 (path_join ''/db'' ''media-info'') = Dir [''v1.json'', ''v2.json'']
   \<and> unistr ''cat video'' \<in> strings_of example_doc
   \<and> plain (unistr ''cat video'')
   \<and> list_all2 ascii_case_variant (unistr ''cat video'') (unistr ''CAT VIDEO'')
   \<and> matches example_ucd (unistr ''CAT VIDEO'') example_doc
   \<and> \<not> matches example_ucd (unistr ''dog'') example_doc
   \<and> \<not> matches example_ucd (unistr ''dog'') example_doc2
   \<and> search_database_text example_ucd example_fs2 ''/db'' (unistr ''dog'') = Inr []
   \<and> map_sum id (map (\<lambda>r. (video_name r, frame_id r)))
        (search_database_text example_ucd example_fs2 ''/db'' (unistr ''SHOW''))
      = Inr [(Some ''v2'', ''001'')]
   \<and> map_sum id (map (\<lambda>r. (video_name r, frame_id r)))
        (search_database_text example_ucd example_fs2 ''/db'' (unistr ''Title''))
      = Inr [(Some ''v1'', ''001''), (Some ''v2'', ''001'')]"
proof -
  have "matches example_ucd (unistr ''CAT VIDEO'') example_doc"
    using search_match_rule [of example_fs2 "''/db''" "[''v1.json'', ''v2.json'']" example_ucd
        "unistr ''CAT VIDEO''" example_doc]
      example_fs2_media_info example_value example_plain example_variant
    by blast
  moreover have "\<forall>f\<in>set [''v1.json'', ''v2.json''].
      \<forall>d. json_load example_fs2 (path_join (path_join ''/db'' ''media-info'') f) = Inr d
          \<longrightarrow> \<not> matches example_ucd (unistr ''dog'') d"
    using example_fs2_v1 example_fs2_v2 example_dog example_dog2 by simp
  then have "search_database_text example_ucd example_fs2 ''/db'' (unistr ''dog'') = Inr []"
    using search_match_rule [of example_fs2 "''/db''" "[''v1.json'', ''v2.json'']" example_ucd
        "unistr ''dog''" example_doc]
      example_fs2_media_info
    by blast
  ultimately show ?thesis
    using example_fs2_media_info example_value example_plain example_variant example_dog example_dog2
      example_search_show example_search_title
    by simp
qed

section \<open>Search: the cap of ten keyframes\<close>

lemma example_fs_media_info: "example_fs (path_join ''/db'' ''media-info'') = Dir [''v1.json'']"
  by code_simp

lemma concat_map_filter_if:
  "concat (map (\<lambda>x. if P x then F x else []) xs) = concat (map F (filter P xs))"
  by (induction xs) auto

lemma filter_file_records:
  "filter (\<lambda>r. video_name r = Some vid) (file_records ucd fs db q f)
     = (if fst (splitext f) = vid then file_records ucd fs db q f else [])"
proof (cases "fst (splitext f) = vid")
  case True
  then have "\<forall>r\<in>set (file_records ucd fs db q f). video_name r = Some vid"
    using file_records_video_name by blast
  with True show ?thesis by (simp add: filter_id_conv)
next
  case False
  then have "\<forall>r\<in>set (file_records ucd fs db q f). video_name r \<noteq> Some vid"
    using file_records_video_name by fastforce
  with False show ?thesis by (simp add: filter_empty_conv)
qed

lemma filter_search_results:
  "filter (\<lambda>r. video_name r = Some vid) (concat (map (file_records ucd fs db q) fs'))
     = concat (map (file_records ucd fs db q) (filter (\<lambda>f. fst (splitext f) = vid) fs'))"
proof -
  have "filter (\<lambda>r. video_name r = Some vid) (concat (map (file_records ucd fs db q) fs'))
      = concat (map (\<lambda>f. filter (\<lambda>r. video_name r = Some vid) (file_records ucd fs db q f)) fs')"
    by (simp add: filter_concat comp_def)
  also have "\<dots> = concat (map (\<lambda>f. if fst (splitext f) = vid then file_records ucd fs db q f else []) fs')"
    by (simp add: filter_file_records)
  also have "\<dots> = concat (map (file_records ucd fs db q) (filter (\<lambda>f. fst (splitext f) = vid) fs'))"
    by (rule concat_map_filter_if)
  finally show ?thesis .
qed

lemma example_only_v1:
  "filter (\<lambda>f. endswith f ''.json'' \<and> fst (splitext f) = ''v1'') [''v1.json''] = [''v1.json'']"
  by code_simp

lemma example_fs_v1_file:
  "example_fs (path_join (path_join ''/db'' ''media-info'') ''v1.json'') = File (Some example_doc)"
  by code_simp

lemma example_fs_keyframes:
  "example_fs (path_join (path_join ''/db'' ''keyframes'') ''v1'') = Dir example_keyframes"
  by code_simp

lemma example_keyframes_jpg:
  "filter (\<lambda>k. endswith k ''.jpg'') example_keyframes
     = [''001.jpg'', ''002.jpg'', ''003.jpg'', ''004.jpg'', ''005.jpg'', ''006.jpg'',
        ''007.jpg'', ''008.jpg'', ''009.jpg'', ''010.jpg'', ''011.jpg'', ''012.jpg'']"
  by code_simp

lemma example_keyframes_ten: "10 \<le> length (filter (\<lambda>k. endswith k ''.jpg'') example_keyframes)"
  by (simp add: example_keyframes_jpg)

lemma example_search_cat:
  "map_sum id (map (\<lambda>r. (frame_id r, video_name r, map_option frame_number (metadata r))))
     (search_database_text example_ucd example_fs ''/db'' (unistr ''cat''))
   = Inr [(''001'', Some ''v1'', Some 0), (''002'', Some ''v1'', Some 1), (''003'', Some ''v1'', Some 2),
          (''004'', Some ''v1'', Some 3), (''005'', Some ''v1'', Some 4), (''006'', Some ''v1'', Some 5),
          (''007'', Some ''v1'', Some 6), (''008'', Some ''v1'', Some 7), (''009'', Some ''v1'', Some 8),
          (''010'', Some ''v1'', Some 9)]"
  by code_simp

text \<open>
  Claim C1. When the listing of \<open>media-info\<close> has one metadata file for a video id, its
  document matches the query, and the directory \<open>keyframes/<video_id>\<close> lists at least
  ten \<open>.jpg\<close> files, the search succeeds and emits exactly ten records for that video:
  record \<open>i\<close> (from 0 to 9) has as \<open>frame_id\<close> the name without extension of the
  \<open>i\<close>-th \<open>.jpg\<close> file in listing order, as \<open>video_name\<close> the video id, and as
  \<open>metadata.frame_number\<close> the position \<open>i\<close>.
\<close>

theorem search_caps_at_ten:
  assumes "fs (path_join database_path ''media-info'') = Dir names"
    and "filter (\<lambda>f. endswith f ''.json'' \<and> fst (splitext f) = video_id) names = [media_file]"
    and "fs (path_join (path_join database_path ''media-info'') media_file) = File (Some doc)"
    and "matches ucd text_query doc"
    and "fs (path_join (path_join database_path ''keyframes'') video_id) = Dir listing"
    and "10 \<le> length (filter (\<lambda>k. endswith k ''.jpg'') listing)"
  shows "\<exists>results. search_database_text ucd fs database_path text_query = Inr results \<and>
           (let mine = filter (\<lambda>r. video_name r = Some video_id) results;
                keyframe_files = filter (\<lambda>k. endswith k ''.jpg'') listing
            in length mine = 10 \<and>
               (\<forall>i<10. frame_id (mine ! i) = fst (splitext (keyframe_files ! i))
                      \<and> video_name (mine ! i) = Some video_id
                      \<and> map_option frame_number (metadata (mine ! i)) = Some (int i)))"
proof -
  let ?jsons = "filter (\<lambda>f. endswith f ''.json'') names"
  let ?kfs = "filter (\<lambda>k. endswith k ''.jpg'') listing"
  let ?folder = "path_join (path_join database_path ''keyframes'') video_id"
  let ?results = "concat (map (file_records ucd fs database_path text_query) ?jsons)"
  let ?mine = "filter (\<lambda>r. video_name r = Some video_id) ?results"
  have res: "search_database_text ucd fs database_path text_query = Inr ?results"
    using assms(1) by (rule search_Dir)
  have "media_file \<in> set (filter (\<lambda>f. endswith f ''.json'' \<and> fst (splitext f) = video_id) names)"
    using assms(2) by simp
  then have stem: "fst (splitext media_file) = video_id" by simp
  have "filter (\<lambda>f. fst (splitext f) = video_id) ?jsons = [media_file]"
    using assms(2) by (simp add: conj_commute)
  then have "?mine = file_records ucd fs database_path text_query media_file"
    by (simp add: filter_search_results)
  also have "\<dots> = map (keyframe_record ?folder video_id doc) (enumerate 0 (take 10 ?kfs))"
    using file_records_match [of fs database_path media_file doc ucd text_query listing] assms(3,4,5) stem
    by (simp add: json_load_def)
  finally have mine: "?mine = map (keyframe_record ?folder video_id doc) (enumerate 0 (take 10 ?kfs))" .
  have len: "length ?mine = 10"
    using assms(6) by (simp add: mine min_def)
  have nth: "\<forall>i<10. frame_id (?mine ! i) = fst (splitext (?kfs ! i))
                      \<and> video_name (?mine ! i) = Some video_id
                      \<and> map_option frame_number (metadata (?mine ! i)) = Some (int i)"
  proof (intro allI impI)
    fix i :: nat assume i: "i < 10"
    with assms(6) have il: "i < length (take 10 ?kfs)" by simp
    then have "?mine ! i = keyframe_record ?folder video_id doc (i, take 10 ?kfs ! i)"
      by (simp add: mine nth_enumerate_eq)
    also have "take 10 ?kfs ! i = ?kfs ! i" using i by simp
    finally have "?mine ! i = keyframe_record ?folder video_id doc (i, ?kfs ! i)" .
    then show "frame_id (?mine ! i) = fst (splitext (?kfs ! i))
                      \<and> video_name (?mine ! i) = Some video_id
                      \<and> map_option frame_number (metadata (?mine ! i)) = Some (int i)"
      by (simp add: keyframe_record_def Let_def)
  qed
  from res len nth show ?thesis by (simp add: Let_def)
qed

theorem search_caps_at_ten_witness:
  "example_fs (path_join ''/db'' ''media-info'') = Dir [''v1.json'']
   \<and> filter (\<lambda>f. endswith f ''.json'' \<and> fst (splitext f) = ''v1'') [''v1.json''] = [''v1.json'']
   \<and> example_fs (path_join (path_join ''/db'' ''media-info'') ''v1.json'') = File (Some example_doc)
   \<and> matches example_ucd (unistr ''cat'') example_doc
   \<and> example_fs (path_join (path_join ''/db'' ''keyframes'') ''v1'') = Dir example_keyframes
   \<and> length (filter (\<lambda>k. endswith k ''.jpg'') example_keyframes) = 12
   \<and> (\<exists>results. search_database_text example_ucd example_fs ''/db'' (unistr ''cat'') = Inr results
        \<and> length (filter (\<lambda>r. video_name r = Some ''v1'') results) = 10)"
proof -
  have "\<exists>results. search_database_text example_ucd example_fs ''/db'' (unistr ''cat'') = Inr results
        \<and> length (filter (\<lambda>r. video_name r = Some ''v1'') results) = 10"
    using search_caps_at_ten [of example_fs "''/db''" "[''v1.json'']" "''v1''" "''v1.json''" example_doc
      example_ucd
      "unistr ''cat''" example_keyframes, OF example_fs_media_info example_only_v1 example_fs_v1_file
      example_cat example_fs_keyframes example_keyframes_ten]
    by (auto simp: Let_def)
  moreover have "length (filter (\<lambda>k. endswith k ''.jpg'') example_keyframes) = 12"
    by (simp add: example_keyframes_jpg)
  ultimately show ?thesis
    using example_fs_media_info example_only_v1 example_fs_v1_file example_cat example_fs_keyframes
    by blast
qed

section \<open>Search: frame identifiers\<close>

text \<open>
  Claim C7. The mock generator numbers its twenty records, so their \<open>frame_id\<close>s are
  pairwise different. The search of the real dataset takes the \<open>frame_id\<close> from the
  keyframe's file name alone: on a dataset with two matching videos that each hold a
  keyframe \<open>001.jpg\<close> it returns two records with the \<open>frame_id\<close> \<open>001\<close>, one of
  video \<open>v1\<close> and one of video \<open>v2\<close>. Selection and export go by \<open>frame_id\<close>, so
  selecting \<open>001\<close> once exports a row for both videos.
\<close>

theorem frame_ids_shared_across_videos:
  "distinct (map frame_id (map mock_result [0..<20]))
   \<and> map_sum id (map frame_id) (search_database_text example_ucd example_fs2 ''/db'' (unistr ''cat''))
      = Inr [''001'', ''001'']
   \<and> map_sum id (map video_name) (search_database_text example_ucd example_fs2 ''/db'' (unistr ''cat''))
      = Inr [Some ''v1'', Some ''v2'']
   \<and> \<not> distinct (map frame_id example_search2)
   \<and> map snd (files (snd (generate_csv
          (toggle_selection (update_results (example_state [] [] KIS []) example_search2) ''001'' True)
          ''/app'' ''20250101_120000'' empty_disk)))
      = [[[''v1.mp4'', ''001''], [''v2.mp4'', ''001'']]]"
  by code_simp

section \<open>Result set: properties\<close>

text \<open>
  Claim C8, as the code has it. Replacing the records empties the selection and so
  establishes the invariant (every selected id is the id of a current record); selecting
  all and clearing the selection establish it too, and clearing leaves the records alone.
  A toggle keeps the invariant when it switches an id off, or when the id is that of a
  current record, which is how the check boxes call it. The toggle itself never looks at
  the records.
\<close>

theorem invariant_preserved:
  "selection_invariant (update_results st rs) \<and> selected_images (update_results st rs) = []
   \<and> selection_invariant (select_all st)
   \<and> selection_invariant (clear_selection st)
   \<and> retrieved_images (clear_selection st) = retrieved_images st
   \<and> (selection_invariant st \<and> (\<not> is_selected \<or> fid \<in> frame_id ` set (retrieved_images st))
        \<longrightarrow> selection_invariant (toggle_selection st fid is_selected))"
  by (auto simp: selection_invariant_def toggle_selection_def update_results_def select_all_def
      clear_selection_def dest: notin_set_remove1)

theorem invariant_preserved_witness:
  "selection_invariant (example_state [example_record ''A'' ''f1''] [] KIS [])
   \<and> ''f1'' \<in> frame_id ` set (retrieved_images (example_state [example_record ''A'' ''f1''] [] KIS []))
   \<and> selection_invariant (toggle_selection (example_state [example_record ''A'' ''f1''] [] KIS []) ''f1'' True)
   \<and> selected_images (toggle_selection (example_state [example_record ''A'' ''f1''] [] KIS []) ''f1'' True) = [''f1'']"
  using invariant_preserved [of "example_state [example_record ''A'' ''f1''] [] KIS []" "[]" True "''f1''"]
  by (simp add: selection_invariant_def toggle_selection_def example_state_def example_record_def)

text \<open>
  The claim as stated fails: on an empty result set, switching on an id that no record
  has puts it into the selection.
\<close>

theorem invariant_counterexample:
  "selection_invariant (example_state [] [] KIS [])
   \<and> \<not> selection_invariant (toggle_selection (example_state [] [] KIS []) ''x'' True)"
  by (simp add: selection_invariant_def toggle_selection_def example_state_def)

text \<open>
  Claim C9, as the code has it. For an id that no current record has, in a result set that
  satisfies the invariant, switching the id off changes nothing; switching it on appends
  the id to the selection and leaves the records as they are.
\<close>

theorem toggle_absent:
  "fid \<notin> frame_id ` set (retrieved_images st) \<Longrightarrow> selection_invariant st \<Longrightarrow>
     toggle_selection st fid False = st
     \<and> selected_images (toggle_selection st fid True) = selected_images st @ [fid]
     \<and> retrieved_images (toggle_selection st fid True) = retrieved_images st"
  by (auto simp: selection_invariant_def toggle_selection_def)

theorem toggle_absent_witness:
  "''b'' \<notin> frame_id ` set (retrieved_images (example_state [example_record ''A'' ''a''] [''a''] KIS []))
   \<and> selection_invariant (example_state [example_record ''A'' ''a''] [''a''] KIS [])
   \<and> toggle_selection (example_state [example_record ''A'' ''a''] [''a''] KIS []) ''b'' False
       = example_state [example_record ''A'' ''a''] [''a''] KIS []
   \<and> selected_images (toggle_selection (example_state [example_record ''A'' ''a''] [''a''] KIS []) ''b'' True)
       = [''a'', ''b'']"
  using toggle_absent [of "''b''" "example_state [example_record ''A'' ''a''] [''a''] KIS []"]
  by (simp add: selection_invariant_def example_state_def example_record_def)

text \<open>
  The claim as stated fails: with one record \<open>a\<close>, selected, switching on the absent
  id \<open>b\<close> changes the selection.
\<close>

theorem toggle_absent_counterexample:
  "''b'' \<notin> frame_id ` set (retrieved_images (example_state [example_record ''A'' ''a''] [''a''] KIS []))
   \<and> selected_images (toggle_selection (example_state [example_record ''A'' ''a''] [''a''] KIS []) ''b'' True)
       \<noteq> selected_images (example_state [example_record ''A'' ''a''] [''a''] KIS [])"
  by (simp add: toggle_selection_def example_state_def example_record_def)

section \<open>Export writer: properties\<close>

lemma py_strip_blank: "py_strip ''   '' = []"
  by (simp add: py_strip_def)

lemma export_accepted_writes:
  "selected_images st \<noteq> [] \<Longrightarrow> \<not> (current_task st = QnA \<and> py_strip (answer_entry st) = []) \<Longrightarrow>
     length (dirs (snd (generate_csv st base_dir timestamp d))) = Suc (length (dirs d))
     \<and> length (files (snd (generate_csv st base_dir timestamp d))) = Suc (length (files d))"
  by (auto simp: generate_csv_def create_csv_file_def Let_def split: prod.splits option.splits)

text \<open>
  Claim C5. An export request with an empty selection, or for the task QnA with an answer
  that is empty or only whitespace, is rejected with a warning before any file I/O: the
  disk is as it was, so no output directory has been made and no CSV file written.
\<close>

theorem export_rejected_before_io:
  "selected_images st = [] \<or> (current_task st = QnA \<and> py_strip (answer_entry st) = []) \<Longrightarrow>
     snd (generate_csv st base_dir timestamp d) = d
     \<and> (fst (generate_csv st base_dir timestamp d) = ShowWarning ''No frames selected''
        \<or> fst (generate_csv st base_dir timestamp d) = ShowWarning ''Answer is required for QnA task'')"
  by (auto simp: generate_csv_def)

theorem export_rejected_before_io_witness:
  "(selected_images (example_state [example_record ''A'' ''f1''] [''f1''] QnA ''   '') = []
      \<or> (current_task (example_state [example_record ''A'' ''f1''] [''f1''] QnA ''   '') = QnA
         \<and> py_strip (answer_entry (example_state [example_record ''A'' ''f1''] [''f1''] QnA ''   '')) = []))
   \<and> snd (generate_csv (example_state [example_record ''A'' ''f1''] [''f1''] QnA ''   '')
            ''/app'' ''20250101_120000'' empty_disk) = empty_disk"
  using export_rejected_before_io
    [of "example_state [example_record ''A'' ''f1''] [''f1''] QnA ''   ''" "''/app''" "''20250101_120000''" empty_disk]
  by (simp add: example_state_def py_strip_blank)

lemma generate_csv_accepted:
  assumes "selected_images st \<noteq> []"
    and "\<not> (current_task st = QnA \<and> py_strip (answer_entry st) = [])"
  shows "generate_csv st base_dir timestamp d
           = (ShowInfo (fst (create_csv_file st base_dir timestamp d (current_task st))),
              snd (create_csv_file st base_dir timestamp d (current_task st)))"
  using assms by (simp add: generate_csv_def Let_def split: prod.splits)

lemma create_csv_file_files:
  "files (snd (create_csv_file st base_dir timestamp d t))
     = files d @ [(fst (create_csv_file st base_dir timestamp d t), csv_rows st t)]"
  by (simp add: create_csv_file_def Let_def)

lemma csv_rows_reselect:
  "set sel' = set (selected_images st) \<Longrightarrow> csv_rows (st\<lparr>selected_images := sel'\<rparr>) t = csv_rows st t"
  by (cases t) (simp_all add: csv_rows_def)

lemma create_csv_file_reselect:
  "set sel' = set (selected_images st) \<Longrightarrow>
   create_csv_file (st\<lparr>selected_images := sel'\<rparr>) base_dir timestamp d t
     = create_csv_file st base_dir timestamp d t"
  by (simp add: create_csv_file_def Let_def csv_rows_reselect)

lemma csv_rows_kis_qna:
  "t = KIS \<or> t = QnA \<Longrightarrow>
     csv_rows st t =
       map (\<lambda>img. [resolve_video_name img, frame_id img]
                   @ (if t = QnA then [py_strip (answer_entry st)] else []))
         (filter (\<lambda>img. frame_id img \<in> set (selected_images st)) (retrieved_images st))"
  by (auto simp: csv_rows_def Let_def)

text \<open>
  Claim C10. An accepted KIS or QnA export writes one CSV file, and its rows follow the
  order of the records of the result set, not the order in which the ids were selected:
  there is one row for every record whose id is among the selected ids (two records that
  share a selected id are both exported), the column of frame ids is the sequence of the
  records' ids restricted to the selected ones, and any selection with the same set of
  ids gives the same export.
\<close>

theorem kis_qna_rows_in_record_order:
  assumes "current_task st = KIS \<or> current_task st = QnA"
    and "selected_images st \<noteq> []"
    and "current_task st = QnA \<longrightarrow> py_strip (answer_entry st) \<noteq> []"
  shows "\<exists>path rows.
      fst (generate_csv st base_dir timestamp d) = ShowInfo path
    \<and> files (snd (generate_csv st base_dir timestamp d)) = files d @ [(path, rows)]
    \<and> rows = map (\<lambda>img. [resolve_video_name img, frame_id img]
                        @ (if current_task st = QnA then [py_strip (answer_entry st)] else []))
               (filter (\<lambda>img. frame_id img \<in> set (selected_images st)) (retrieved_images st))
    \<and> map (\<lambda>row. row ! 1) rows
        = filter (\<lambda>i. i \<in> set (selected_images st)) (map frame_id (retrieved_images st))
    \<and> (\<forall>sel'. set sel' = set (selected_images st) \<longrightarrow>
          generate_csv (st\<lparr>selected_images := sel'\<rparr>) base_dir timestamp d
            = generate_csv st base_dir timestamp d)"
proof -
  let ?t = "current_task st"
  let ?path = "fst (create_csv_file st base_dir timestamp d ?t)"
  let ?rows = "csv_rows st ?t"
  have acc: "\<not> (?t = QnA \<and> py_strip (answer_entry st) = [])" using assms(3) by simp
  have g: "generate_csv st base_dir timestamp d
             = (ShowInfo ?path, snd (create_csv_file st base_dir timestamp d ?t))"
    using assms(2) acc by (rule generate_csv_accepted)
  have 1: "fst (generate_csv st base_dir timestamp d) = ShowInfo ?path"
    by (simp add: g)
  have 2: "files (snd (generate_csv st base_dir timestamp d)) = files d @ [(?path, ?rows)]"
    by (simp add: g create_csv_file_files)
  have 3: "?rows = map (\<lambda>img. [resolve_video_name img, frame_id img]
                        @ (if ?t = QnA then [py_strip (answer_entry st)] else []))
               (filter (\<lambda>img. frame_id img \<in> set (selected_images st)) (retrieved_images st))"
    using assms(1) by (rule csv_rows_kis_qna)
  have 4: "map (\<lambda>row. row ! 1) ?rows
        = filter (\<lambda>i. i \<in> set (selected_images st)) (map frame_id (retrieved_images st))"
    by (simp add: 3 filter_map comp_def)
  have 5: "\<forall>sel'. set sel' = set (selected_images st) \<longrightarrow>
          generate_csv (st\<lparr>selected_images := sel'\<rparr>) base_dir timestamp d
            = generate_csv st base_dir timestamp d"
  proof (intro allI impI)
    fix sel' assume e: "set sel' = set (selected_images st)"
    with assms(2) have "sel' \<noteq> []" by auto
    then have "generate_csv (st\<lparr>selected_images := sel'\<rparr>) base_dir timestamp d
        = (ShowInfo (fst (create_csv_file (st\<lparr>selected_images := sel'\<rparr>) base_dir timestamp d ?t)),
           snd (create_csv_file (st\<lparr>selected_images := sel'\<rparr>) base_dir timestamp d ?t))"
      using acc generate_csv_accepted [of "st\<lparr>selected_images := sel'\<rparr>" base_dir timestamp d]
      by simp
    then show "generate_csv (st\<lparr>selected_images := sel'\<rparr>) base_dir timestamp d
            = generate_csv st base_dir timestamp d"
      by (simp add: g create_csv_file_reselect [OF e])
  qed
  from 1 2 3 4 5 show ?thesis by blast
qed

lemma example_kis_export:
  "map snd (files (snd (generate_csv
      (example_state [example_record ''A'' ''f1'', example_record ''B'' ''f2'', example_record ''C'' ''f1'']
         [''f2'', ''f1''] KIS [])
      ''/app'' ''20250101_120000'' empty_disk)))
   = [[[''A'', ''f1''], [''B'', ''f2''], [''C'', ''f1'']]]"
  by code_simp

theorem kis_qna_rows_in_record_order_witness:
  "current_task (example_state [example_record ''A'' ''f1'', example_record ''B'' ''f2'', example_record ''C'' ''f1'']
         [''f2'', ''f1''] KIS []) = KIS
   \<and> selected_images (example_state [example_record ''A'' ''f1'', example_record ''B'' ''f2'', example_record ''C'' ''f1'']
         [''f2'', ''f1''] KIS []) = [''f2'', ''f1'']
   \<and> (\<exists>path. files (snd (generate_csv
          (example_state [example_record ''A'' ''f1'', example_record ''B'' ''f2'', example_record ''C'' ''f1'']
             [''f2'', ''f1''] KIS [])
          ''/app'' ''20250101_120000'' empty_disk))
        = [(path, [[''A'', ''f1''], [''B'', ''f2''], [''C'', ''f1'']])])
   \<and> generate_csv
        ((example_state [example_record ''A'' ''f1'', example_record ''B'' ''f2'', example_record ''C'' ''f1'']
             [''f2'', ''f1''] KIS [])\<lparr>selected_images := [''f1'', ''f2'']\<rparr>)
        ''/app'' ''20250101_120000'' empty_disk
      = generate_csv
        (example_state [example_record ''A'' ''f1'', example_record ''B'' ''f2'', example_record ''C'' ''f1'']
             [''f2'', ''f1''] KIS [])
        ''/app'' ''20250101_120000'' empty_disk"
proof -
  let ?st = "example_state [example_record ''A'' ''f1'', example_record ''B'' ''f2'', example_record ''C'' ''f1'']
         [''f2'', ''f1''] KIS []"
  have t: "current_task ?st = KIS" and s: "selected_images ?st = [''f2'', ''f1'']"
    by (simp_all add: example_state_def)
  obtain path rows where
    f: "files (snd (generate_csv ?st ''/app'' ''20250101_120000'' empty_disk)) = files empty_disk @ [(path, rows)]"
    and r: "\<forall>sel'. set sel' = set (selected_images ?st) \<longrightarrow>
          generate_csv (?st\<lparr>selected_images := sel'\<rparr>) ''/app'' ''20250101_120000'' empty_disk
            = generate_csv ?st ''/app'' ''20250101_120000'' empty_disk"
    using kis_qna_rows_in_record_order [of ?st "''/app''" "''20250101_120000''" empty_disk] t s
    by auto
  from f example_kis_export have "rows = [[''A'', ''f1''], [''B'', ''f2''], [''C'', ''f1'']]"
    by (simp add: empty_disk_def)
  with f have "\<exists>path. files (snd (generate_csv ?st ''/app'' ''20250101_120000'' empty_disk))
        = [(path, [[''A'', ''f1''], [''B'', ''f2''], [''C'', ''f1'']])]"
    by (simp add: empty_disk_def)
  moreover have "set [''f1'', ''f2''] = set (selected_images ?st)" by (auto simp: s)
  with r have "generate_csv (?st\<lparr>selected_images := [''f1'', ''f2'']\<rparr>) ''/app'' ''20250101_120000'' empty_disk
            = generate_csv ?st ''/app'' ''20250101_120000'' empty_disk"
    by blast
  ultimately show ?thesis using t s by blast
qed

section \<open>Export writer: the TRAKE layout\<close>

lemma group_append_keys:
  "map fst (group_append videos k v)
     = (if k \<in> fst ` set videos then map fst videos else map fst videos @ [k])"
  by (induction videos k v rule: group_append.induct) auto

lemma group_of_append:
  "group_of (group_append videos k v) k' = group_of videos k' @ (if k' = k then [v] else [])"
  by (induction videos k v rule: group_append.induct) (auto simp: group_of_def)

lemma groups_keys:
  "fst ` set (foldl (\<lambda>videos img. group_append videos (resolve_video_name img) (frame_id img)) acc sel)
     = fst ` set acc \<union> resolve_video_name ` set sel"
proof (induction sel arbitrary: acc)
  case Nil
  then show ?case by simp
next
  case (Cons img sel)
  have "fst ` set (group_append acc (resolve_video_name img) (frame_id img))
          = insert (resolve_video_name img) (fst ` set acc)"
  proof -
    have "set (map fst (group_append acc (resolve_video_name img) (frame_id img)))
            = insert (resolve_video_name img) (set (map fst acc))"
      unfolding group_append_keys by auto
    then show ?thesis by simp
  qed
  with Cons show ?case by simp
qed

lemma groups_distinct:
  "distinct (map fst acc) \<Longrightarrow>
   distinct (map fst (foldl (\<lambda>videos img. group_append videos (resolve_video_name img) (frame_id img)) acc sel))"
proof (induction sel arbitrary: acc)
  case Nil
  then show ?case by simp
next
  case (Cons img sel)
  have "distinct (map fst (group_append acc (resolve_video_name img) (frame_id img)))"
    using Cons.prems by (simp add: group_append_keys)
  with Cons.IH show ?case by simp
qed

lemma groups_group_of:
  "group_of (foldl (\<lambda>videos img. group_append videos (resolve_video_name img) (frame_id img)) acc sel) k
     = group_of acc k @ frames_of sel k"
proof (induction sel arbitrary: acc)
  case Nil
  then show ?case by (simp add: frames_of_def)
next
  case (Cons img sel)
  then show ?case by (simp add: group_of_append frames_of_def)
qed

lemma group_of_Nil: "group_of [] k = []"
  by (simp add: group_of_def)

lemma group_of_member:
  "distinct (map fst videos) \<Longrightarrow> (k, frame_ids) \<in> set videos \<Longrightarrow> group_of videos k = frame_ids"
  by (simp add: group_of_def)

lemma py_max_Max: "xs \<noteq> [] \<Longrightarrow> py_max xs = Max (set xs)"
  by (cases xs) (simp_all add: Max.set_eq_fold [symmetric])

lemma example_trake_selected:
  "selected_records example_trake
     = [example_record ''A'' ''f1'', example_record ''B'' ''f3'', example_record ''A'' ''f2'']"
  by (simp add: selected_records_def example_trake_def example_state_def example_record_def)

lemma csv_rows_trake:
  assumes "selected_records st \<noteq> []"
  shows "distinct (map hd (csv_rows st TRAKE))
    \<and> set (map hd (csv_rows st TRAKE)) = resolve_video_name ` set (selected_records st)
    \<and> (\<forall>row\<in>set (csv_rows st TRAKE).
          row = hd row # frames_of (selected_records st) (hd row)
                  @ replicate (max_group (selected_records st)
                                - length (frames_of (selected_records st) (hd row))) [])
    \<and> (\<forall>row\<in>set (csv_rows st TRAKE). length row = 1 + max_group (selected_records st))"
proof -
  define sel where "sel = selected_records st"
  define G where "G = foldl (\<lambda>videos img. group_append videos (resolve_video_name img) (frame_id img)) [] sel"
  define M where "M = py_max (map (\<lambda>kv. length (snd kv)) G)"
  have sel: "sel \<noteq> []" using assms by (simp add: sel_def)
  have rows: "csv_rows st TRAKE = map (\<lambda>kv. [fst kv] @ snd kv @ replicate (M - length (snd kv)) []) G"
    using sel by (simp add: csv_rows_def trake_rows_def Let_def selected_records_def sel_def G_def M_def)
  have keys: "fst ` set G = resolve_video_name ` set sel"
    unfolding G_def by (simp add: groups_keys)
  have dist: "distinct (map fst G)"
    unfolding G_def by (rule groups_distinct) simp
  have grp: "snd kv = frames_of sel (fst kv)" if "kv \<in> set G" for kv
  proof -
    from that have "(fst kv, snd kv) \<in> set G" by simp
    with dist have "group_of G (fst kv) = snd kv" by (rule group_of_member)
    moreover have "group_of G (fst kv) = frames_of sel (fst kv)"
      unfolding G_def by (simp add: groups_group_of group_of_Nil)
    ultimately show ?thesis by simp
  qed
  have Gne: "G \<noteq> []" using keys sel by auto
  have "M = Max (set (map (\<lambda>kv. length (snd kv)) G))"
    unfolding M_def using Gne by (simp add: py_max_Max)
  also have "set (map (\<lambda>kv. length (snd kv)) G) = (\<lambda>k. length (frames_of sel k)) ` fst ` set G"
    using grp by (auto simp: image_iff)
  also have "\<dots> = (\<lambda>img. length (frames_of sel (resolve_video_name img))) ` set sel"
    unfolding keys by (simp add: image_image)
  finally have M: "M = max_group sel" by (simp add: max_group_def)
  have le: "length (frames_of sel (fst kv)) \<le> M" if "kv \<in> set G" for kv
  proof -
    have "length (snd kv) \<in> set (map (\<lambda>kv. length (snd kv)) G)" using that by simp
    then have "length (snd kv) \<le> Max (set (map (\<lambda>kv. length (snd kv)) G))" by (simp del: set_map)
    then show ?thesis using Gne that by (simp add: M_def py_max_Max grp del: set_map)
  qed
  have hd: "map hd (csv_rows st TRAKE) = map fst G"
    by (simp add: rows comp_def)
  have 1: "distinct (map hd (csv_rows st TRAKE))" using dist by (simp only: hd)
  have 2: "set (map hd (csv_rows st TRAKE)) = resolve_video_name ` set sel"
    using keys by (simp only: hd set_map)
  have 3: "\<forall>row\<in>set (csv_rows st TRAKE).
          row = hd row # frames_of sel (hd row) @ replicate (max_group sel - length (frames_of sel (hd row))) []"
    by (auto simp: rows grp M)
  have 4: "\<forall>row\<in>set (csv_rows st TRAKE). length row = 1 + max_group sel"
    using le by (auto simp: rows grp M [symmetric])
  from 1 2 3 4 show ?thesis by (simp add: sel_def)
qed


text \<open>
  Claim C2. A TRAKE export whose selected records are not empty writes one CSV file. Its
  rows have pairwise different first fields, and these are exactly the video names of
  the selected records: one row per distinct video name. Each row is the video name,
  then the frame ids of that video's selected records in the order of the selected
  records (not sorted), then empty fields up to the size of the largest group, so that
  every row has 1 + (largest group size) fields.
\<close>

theorem trake_rows_grouped:
  assumes "current_task st = TRAKE" and "selected_records st \<noteq> []"
  shows "\<exists>path rows.
      fst (generate_csv st base_dir timestamp d) = ShowInfo path
    \<and> files (snd (generate_csv st base_dir timestamp d)) = files d @ [(path, rows)]
    \<and> distinct (map hd rows)
    \<and> set (map hd rows) = resolve_video_name ` set (selected_records st)
    \<and> (\<forall>row\<in>set rows.
          row = hd row # frames_of (selected_records st) (hd row)
                  @ replicate (max_group (selected_records st)
                                - length (frames_of (selected_records st) (hd row))) [])
    \<and> (\<forall>row\<in>set rows. length row = 1 + max_group (selected_records st))"
proof -
  let ?path = "fst (create_csv_file st base_dir timestamp d TRAKE)"
  have "selected_images st \<noteq> []"
    using assms(2) by (auto simp: selected_records_def)
  then have g: "generate_csv st base_dir timestamp d
             = (ShowInfo ?path, snd (create_csv_file st base_dir timestamp d TRAKE))"
    using generate_csv_accepted [of st base_dir timestamp d] assms(1) by simp
  have 1: "fst (generate_csv st base_dir timestamp d) = ShowInfo ?path"
    by (simp add: g)
  have 2: "files (snd (generate_csv st base_dir timestamp d)) = files d @ [(?path, csv_rows st TRAKE)]"
    by (simp add: g create_csv_file_files)
  from 1 2 csv_rows_trake [OF assms(2)] show ?thesis by blast
qed

lemma example_trake_export:
  "map snd (files (snd (generate_csv example_trake ''/app'' ''20250101_120000'' empty_disk)))
     = [[[''A'', ''f1'', ''f2''], [''B'', ''f3'', []]]]"
  by code_simp

theorem trake_rows_grouped_witness:
  "current_task example_trake = TRAKE
   \<and> selected_records example_trake
       = [example_record ''A'' ''f1'', example_record ''B'' ''f3'', example_record ''A'' ''f2'']
   \<and> (\<exists>path. files (snd (generate_csv example_trake ''/app'' ''20250101_120000'' empty_disk))
        = [(path, [[''A'', ''f1'', ''f2''], [''B'', ''f3'', []]])])"
proof -
  have t: "current_task example_trake = TRAKE"
    by (simp add: example_trake_def example_state_def)
  have "selected_records example_trake \<noteq> []"
    by (simp add: example_trake_selected)
  with t obtain path rows where
    f: "files (snd (generate_csv example_trake ''/app'' ''20250101_120000'' empty_disk))
          = files empty_disk @ [(path, rows)]"
    using trake_rows_grouped [of example_trake "''/app''" "''20250101_120000''" empty_disk] by blast
  from f example_trake_export have "rows = [[''A'', ''f1'', ''f2''], [''B'', ''f3'', []]]"
    by (simp add: empty_disk_def)
  with f have "\<exists>path. files (snd (generate_csv example_trake ''/app'' ''20250101_120000'' empty_disk))
        = [(path, [[''A'', ''f1'', ''f2''], [''B'', ''f3'', []]])]"
    by (simp add: empty_disk_def)
  with t example_trake_selected show ?thesis by blast
qed

end
